theory Spec2Isabelle
  imports Main "HOL-Library.Extended_Nat"
begin

section \<open>The constraint solver's resolver (packages/constraint-solver/resolver.js)\<close>

text \<open>
  A shallow embedding of \<^verbatim>\<open>resolver.js\<close>. Package names and version strings are
  \<^typ>\<open>string\<close>s, as in the source. JavaScript objects used as dictionaries are maps
  of their own properties, read and written as JavaScript does (see below).
  Unit versions and constraints are values: the source compares them by reference and
  relies on interning (the comment at the head of the file), so equal values stand for
  the same object.
\<close>

subsection \<open>Results: a value, a thrown \<^verbatim>\<open>Error\<close>, or no result\<close>

text \<open>
  \<^verbatim>\<open>throw new Error(msg)\<close> is \<open>Some (Inl (Error msg))\<close>, a returned value is
  \<open>Some (Inr v)\<close>. The recursion of \<^verbatim>\<open>_exactTransitiveConstraints\<close> and the two
  \<^verbatim>\<open>while\<close> loops carry fuel; \<open>None\<close> says that the fuel ran out.
  \<open>TypeError\<close> is the error of the JavaScript runtime (a property read on
  \<^verbatim>\<open>undefined\<close>, a call of something that is no function); its message depends on
  the engine and is left out. \<open>MatchError\<close> is the error of a failed \<^verbatim>\<open>check\<close>.
  What a function has written before it throws is not kept: a throw ends the run that
  the model describes.
\<close>

datatype exn = Error string | TypeError | MatchError

type_synonym 'a result = "(exn + 'a) option"

definition ret :: "'a \<Rightarrow> 'a result" where
  "ret x = Some (Inr x)"

definition throw :: "string \<Rightarrow> 'a result" where
  "throw msg = Some (Inl (Error msg))"

definition throwTypeError :: "'a result" where
  "throwTypeError = Some (Inl TypeError)"

definition throwMatchError :: "'a result" where
  "throwMatchError = Some (Inl MatchError)"

fun rbind :: "'a result \<Rightarrow> ('a \<Rightarrow> 'b result) \<Rightarrow> 'b result" where
  "rbind None f = None"
| "rbind (Some (Inl e)) f = Some (Inl e)"
| "rbind (Some (Inr x)) f = f x"

text \<open>\<^verbatim>\<open>_.map\<close> with a callback that may throw: the first throw ends the iteration.\<close>

fun mapM :: "('a \<Rightarrow> 'b result) \<Rightarrow> 'a list \<Rightarrow> 'b list result" where
  "mapM f [] = ret []"
| "mapM f (x # xs) = rbind (f x) (\<lambda>y. rbind (mapM f xs) (\<lambda>ys. ret (y # ys)))"

text \<open>\<^verbatim>\<open>each\<close> with a callback that updates a captured variable and may throw.\<close>

fun eachM :: "('a \<Rightarrow> 'b \<Rightarrow> 'b result) \<Rightarrow> 'a list \<Rightarrow> 'b \<Rightarrow> 'b result" where
  "eachM f [] acc = ret acc"
| "eachM f (x # xs) acc = rbind (f x acc) (eachM f xs)"

subsection \<open>Plain objects used as dictionaries\<close>

text \<open>
  The registries and \<^verbatim>\<open>isEnqueued\<close> are objects created by \<^verbatim>\<open>{}\<close>. The map
  holds the own properties of such an object.
  \<^item> \<^verbatim>\<open>_.has(obj, key)\<close> is \<^verbatim>\<open>hasOwnProperty\<close>: it looks at the own properties.
  \<^item> \<^verbatim>\<open>obj[key]\<close> also finds what the object inherits from \<^verbatim>\<open>Object.prototype\<close>:
    its functions (of which the model keeps the \<^verbatim>\<open>length\<close>, the number of declared
    parameters) and, under \<^verbatim>\<open>__proto__\<close>, the prototype itself.
  \<^item> \<^verbatim>\<open>obj[key] = v\<close> creates or replaces an own property, except for the key
    \<^verbatim>\<open>__proto__\<close>: there it replaces the prototype when \<open>v\<close> is an object and does
    nothing otherwise, and the object gets no own property.
  The model has no component for a replaced prototype. The source assigns an object to
  \<^verbatim>\<open>__proto__\<close> in one place, line 33 of \<^verbatim>\<open>addUnitVersion\<close>, and that call throws
  at line 42, so it returns no registry.
\<close>

datatype 'a js_value = Undefined | Value 'a | InheritedFunction nat | ObjectPrototype

definition objectPrototype :: "string \<Rightarrow> 'a js_value" where
  "objectPrototype key =
     (if key = ''__proto__'' then ObjectPrototype
      else if key \<in> {''toString'', ''toLocaleString'', ''valueOf''} then InheritedFunction 0
      else if key \<in> {''constructor'', ''hasOwnProperty'', ''isPrototypeOf'',
                      ''propertyIsEnumerable'', ''__lookupGetter__'', ''__lookupSetter__''}
      then InheritedFunction 1
      else if key \<in> {''__defineGetter__'', ''__defineSetter__''} then InheritedFunction 2
      else Undefined)"

definition js_has :: "(string \<rightharpoonup> 'a) \<Rightarrow> string \<Rightarrow> bool" where
  "js_has obj key = (obj key \<noteq> None)"

definition js_get :: "(string \<rightharpoonup> 'a) \<Rightarrow> string \<Rightarrow> 'a js_value" where
  "js_get obj key = (case obj key of Some v \<Rightarrow> Value v | None \<Rightarrow> objectPrototype key)"

definition js_set :: "(string \<rightharpoonup> 'a) \<Rightarrow> string \<Rightarrow> 'a \<Rightarrow> (string \<rightharpoonup> 'a)" where
  "js_set obj key v = (if key = ''__proto__'' then obj else obj(key \<mapsto> v))"

subsection \<open>The semver module\<close>

text \<open>
  \<^verbatim>\<open>var semver = Npm.require('semver')\<close> is an external library; the resolver uses
  \<^verbatim>\<open>semver.lt\<close> and \<^verbatim>\<open>semver.lte\<close> only. They are parameters of the model.
  Version strings are taken to be valid (the library throws on others). On an argument
  that is no string the library throws a \<open>TypeError\<close> (it calls the argument's
  \<^verbatim>\<open>trim\<close>).
\<close>

record semver =
  semver_lt :: "string \<Rightarrow> string \<Rightarrow> bool"
  semver_lte :: "string \<Rightarrow> string \<Rightarrow> bool"

subsection \<open>Constraint and UnitVersion\<close>

record constraint =
  c_name :: string
  c_exact :: bool
  c_version :: string

record unit_version =
  uv_name :: string
  uv_version :: string
  uv_dependencies :: "string list"
  uv_constraints :: "constraint list"
  uv_ecv :: string

text \<open>\<^verbatim>\<open>new ConstraintSolver.UnitVersion(name, unitVersion, ecv)\<close>\<close>

definition UnitVersion :: "string \<Rightarrow> string \<Rightarrow> string \<Rightarrow> unit_version" where
  "UnitVersion name unitVersion ecv =
     \<lparr>uv_name = name, uv_version = unitVersion, uv_dependencies = [],
      uv_constraints = [], uv_ecv = ecv\<rparr>"

definition uv_toString :: "unit_version \<Rightarrow> string" where
  "uv_toString self = uv_name self @ ''@'' @ uv_version self"

definition c_toString :: "constraint \<Rightarrow> string" where
  "c_toString self =
     c_name self @ ''@'' @ (if c_exact self then ''='' else '''') @ c_version self"

definition isSatisfied :: "semver \<Rightarrow> constraint \<Rightarrow> unit_version \<Rightarrow> bool" where
  "isSatisfied sv self unitVersion =
     (if c_exact self then c_version self = uv_version unitVersion
      else semver_lte sv (c_version self) (uv_version unitVersion) \<and>
           semver_lte sv (uv_ecv unitVersion) (c_version self))"

subsection \<open>The registry\<close>

record resolver =
  unitsVersions :: "string \<rightharpoonup> unit_version list"
  unitsVersionsMap :: "string \<rightharpoonup> unit_version"
  latestVersion :: "string \<rightharpoonup> string"
  constraintsMap :: "string \<rightharpoonup> constraint"

text \<open>\<^verbatim>\<open>new ConstraintSolver.Resolver()\<close>\<close>

definition Resolver :: resolver where
  "Resolver = \<lparr>unitsVersions = Map.empty, unitsVersionsMap = Map.empty,
               latestVersion = Map.empty, constraintsMap = Map.empty\<rparr>"

text \<open>
  The three statements of \<^verbatim>\<open>addUnitVersion\<close>, in order.
  \<^item> Lines 32-35. For the name \<^verbatim>\<open>__proto__\<close> the test is always true, the first
    assignment makes a new empty array the prototype of \<^verbatim>\<open>unitsVersions\<close> and the
    second one, of a string, does nothing: no own property appears.
  \<^item> Lines 37-40. \<^verbatim>\<open>self.unitsVersions[name].push(uv)\<close> appends to the array found
    under the name. For \<^verbatim>\<open>__proto__\<close> that is the prototype, which line 33 has just
    made an array: the push works and the own properties stay as they are. A name that
    has no array is a \<open>TypeError\<close>; after the first statement there is none.
  \<^item> Lines 42-43. \<^verbatim>\<open>self._latestVersion[name]\<close> is read without a test. When the
    name has no own entry (as for \<^verbatim>\<open>__proto__\<close>, always) \<^verbatim>\<open>semver.lt\<close> gets
    \<^verbatim>\<open>undefined\<close> or an inherited object and throws.
\<close>

definition initName :: "resolver \<Rightarrow> unit_version \<Rightarrow> resolver" where
  "initName self unitVersion =
     (if \<not> js_has (unitsVersions self) (uv_name unitVersion)
      then self\<lparr>unitsVersions := js_set (unitsVersions self) (uv_name unitVersion) [],
                latestVersion := js_set (latestVersion self) (uv_name unitVersion)
                                   (uv_version unitVersion)\<rparr>
      else self)"

definition internUnitVersion :: "resolver \<Rightarrow> unit_version \<Rightarrow> resolver result" where
  "internUnitVersion self unitVersion =
     (if \<not> js_has (unitsVersionsMap self) (uv_toString unitVersion)
      then (case js_get (unitsVersions self) (uv_name unitVersion) of
              Value l \<Rightarrow>
                ret (self\<lparr>unitsVersions := js_set (unitsVersions self) (uv_name unitVersion)
                                              (l @ [unitVersion]),
                          unitsVersionsMap := js_set (unitsVersionsMap self)
                                                (uv_toString unitVersion) unitVersion\<rparr>)
            | ObjectPrototype \<Rightarrow>
                ret (self\<lparr>unitsVersionsMap := js_set (unitsVersionsMap self)
                                                (uv_toString unitVersion) unitVersion\<rparr>)
            | Undefined \<Rightarrow> throwTypeError
            | InheritedFunction n \<Rightarrow> throwTypeError)
      else ret self)"

definition bumpLatest :: "semver \<Rightarrow> resolver \<Rightarrow> unit_version \<Rightarrow> resolver result" where
  "bumpLatest sv self unitVersion =
     (case js_get (latestVersion self) (uv_name unitVersion) of
        Value latest \<Rightarrow>
          if semver_lt sv latest (uv_version unitVersion)
          then ret (self\<lparr>latestVersion := js_set (latestVersion self) (uv_name unitVersion)
                                             (uv_version unitVersion)\<rparr>)
          else ret self
      | Undefined \<Rightarrow> throwTypeError
      | InheritedFunction n \<Rightarrow> throwTypeError
      | ObjectPrototype \<Rightarrow> throwTypeError)"

definition addUnitVersion :: "semver \<Rightarrow> resolver \<Rightarrow> unit_version \<Rightarrow> resolver result" where
  "addUnitVersion sv self unitVersion =
     rbind (internUnitVersion (initName self unitVersion) unitVersion)
       (\<lambda>self'. bumpLatest sv self' unitVersion)"

text \<open>
  A sequence of \<^verbatim>\<open>addUnitVersion\<close> calls on a fresh resolver, each of which
  returns: the sequence ends at the first throw.
\<close>

definition addAll :: "semver \<Rightarrow> unit_version list \<Rightarrow> resolver result" where
  "addAll sv uvs = foldl (\<lambda>acc uv. rbind acc (\<lambda>self. addUnitVersion sv self uv)) (ret Resolver) uvs"

text \<open>The registry that a sequence of calls gives (the fresh one where a call threw).\<close>

definition registryOf :: "resolver result \<Rightarrow> resolver" where
  "registryOf r = (case r of Some (Inr self) \<Rightarrow> self | _ \<Rightarrow> Resolver)"

subsection \<open>getSatisfyingUnitVersion\<close>

text \<open>\<^verbatim>\<open>s.replace("=", "")\<close>: a string pattern replaces its first occurrence only.\<close>

fun replace_first :: "char \<Rightarrow> string \<Rightarrow> string" where
  "replace_first ch [] = []"
| "replace_first ch (x # xs) = (if x = ch then xs else x # replace_first ch xs)"

text \<open>
  The exact branch reads \<^verbatim>\<open>_unitsVersionsMap\<close> under a key that contains \<open>@\<close>;
  no inherited property has such a name, so the read is the one of the own properties.
  The other branch is \<^verbatim>\<open>_.find(resolver.unitsVersions[self.name], isSatisfied)\<close>, read
  without \<^verbatim>\<open>_.has\<close>. \<^verbatim>\<open>_.find\<close> of \<^verbatim>\<open>undefined\<close> is \<^verbatim>\<open>undefined\<close>. Of an
  inherited function it visits the indices below the function's \<^verbatim>\<open>length\<close>, whose
  values are \<^verbatim>\<open>undefined\<close>, and the \<^verbatim>\<open>check\<close> at line 434 throws on the first one.
  \<^verbatim>\<open>Object.prototype\<close> has nothing to visit.
\<close>

definition getSatisfyingUnitVersion ::
  "semver \<Rightarrow> constraint \<Rightarrow> resolver \<Rightarrow> unit_version option result" where
  "getSatisfyingUnitVersion sv self resolver =
     (if c_exact self
      then ret (unitsVersionsMap resolver (replace_first CHR ''='' (c_toString self)))
      else (case js_get (unitsVersions resolver) (c_name self) of
              Value uvs \<Rightarrow> ret (find (isSatisfied sv self) uvs)
            | Undefined \<Rightarrow> ret None
            | InheritedFunction n \<Rightarrow> if n = 0 then ret None else throwMatchError
            | ObjectPrototype \<Rightarrow> ret None))"

subsection \<open>Underscore's array helpers\<close>

text \<open>
  \<^verbatim>\<open>_.uniq\<close> keeps the first occurrence of every element; \<^verbatim>\<open>_.union(a, b)\<close> is
  \<^verbatim>\<open>_.uniq\<close> of the concatenation.
\<close>

definition push_new :: "'a list \<Rightarrow> 'a \<Rightarrow> 'a list" where
  "push_new xs x = (if x \<in> set xs then xs else xs @ [x])"

definition uniq :: "'a list \<Rightarrow> 'a list" where
  "uniq xs = foldl push_new [] xs"

definition js_union :: "'a list \<Rightarrow> 'a list \<Rightarrow> 'a list" where
  "js_union xs ys = uniq (xs @ ys)"

subsection \<open>DependenciesList and ConstraintsList\<close>

text \<open>
  Modelled from the spec: the two persistent containers live in
  \<^verbatim>\<open>datastructures.js\<close>, which is not among the sources. The spec describes a
  DependenciesList as an ordered collection of unique names (insertion order, \<open>peek\<close>
  the head, \<open>union\<close> keeps the left order and appends the new names of the right) and a
  ConstraintsList as a set of constraints with \<open>union\<close>, \<open>violated\<close> and the two
  exact intersections. Both are lists without repetition here; \<open>each\<close> visits them
  in list order. The spec does not say what \<open>peek\<close> gives on an empty list.
\<close>

type_synonym dependencies_list = "string list"
type_synonym constraints_list = "constraint list"

definition dl_fromArray :: "string list \<Rightarrow> dependencies_list" where
  "dl_fromArray arr = uniq arr"

definition dl_isEmpty :: "dependencies_list \<Rightarrow> bool" where
  "dl_isEmpty self = (self = [])"

definition dl_peek :: "dependencies_list \<Rightarrow> string option" where
  "dl_peek self = (case self of [] \<Rightarrow> None | d # _ \<Rightarrow> Some d)"

definition dl_remove :: "dependencies_list \<Rightarrow> string \<Rightarrow> dependencies_list" where
  "dl_remove self name = filter (\<lambda>d. d \<noteq> name) self"

definition dl_union :: "dependencies_list \<Rightarrow> dependencies_list \<Rightarrow> dependencies_list" where
  "dl_union self other = foldl push_new self other"

definition dl_exactConstraintsIntersection ::
  "dependencies_list \<Rightarrow> constraints_list \<Rightarrow> constraints_list" where
  "dl_exactConstraintsIntersection self constraintsList =
     filter (\<lambda>c. c_exact c \<and> c_name c \<in> set self) constraintsList"

definition cl_fromArray :: "constraint list \<Rightarrow> constraints_list" where
  "cl_fromArray arr = uniq arr"

definition cl_union :: "constraints_list \<Rightarrow> constraints_list \<Rightarrow> constraints_list" where
  "cl_union self other = foldl push_new self other"

definition cl_violated :: "semver \<Rightarrow> constraints_list \<Rightarrow> unit_version \<Rightarrow> bool" where
  "cl_violated sv self uv =
     (\<exists>c \<in> set self. c_name c = uv_name uv \<and> \<not> isSatisfied sv c uv)"

definition cl_exactDependenciesIntersection ::
  "constraints_list \<Rightarrow> dependencies_list \<Rightarrow> constraints_list" where
  "cl_exactDependenciesIntersection self deps =
     filter (\<lambda>c. c_exact c \<and> c_name c \<in> set deps) self"

subsection \<open>UnitVersion: the exact transitive closure\<close>

text \<open>
  The four places that call \<^verbatim>\<open>c.getSatisfyingUnitVersion\<close> and throw when it finds
  nothing share this function.
\<close>

definition satisfyingOrThrow :: "semver \<Rightarrow> resolver \<Rightarrow> constraint \<Rightarrow> unit_version result" where
  "satisfyingOrThrow sv resolver c =
     rbind (getSatisfyingUnitVersion sv c resolver) (\<lambda>found.
       case found of
         None \<Rightarrow> throw (''No unit version was found for the constraint -- '' @ c_toString c)
       | Some unitVersion \<Rightarrow> ret unitVersion)"

text \<open>
  \<^verbatim>\<open>_exactTransitiveConstraints\<close> recurses without a visited set: on a cycle of exact
  dependencies it does not return. \<open>each\<close> iterates over the list it was called on
  while the callback reassigns the variable.
\<close>

fun exactTransitiveConstraints ::
  "nat \<Rightarrow> semver \<Rightarrow> resolver \<Rightarrow> unit_version \<Rightarrow> constraints_list result" where
  "exactTransitiveConstraints 0 sv resolver self = None"
| "exactTransitiveConstraints (Suc fuel) sv resolver self =
     (let exactTransitiveConstraints0 =
            dl_exactConstraintsIntersection (uv_dependencies self) (uv_constraints self)
      in eachM (\<lambda>c acc.
                  rbind (satisfyingOrThrow sv resolver c) (\<lambda>unitVersion.
                  rbind (exactTransitiveConstraints fuel sv resolver unitVersion) (\<lambda>e.
                  ret (cl_union acc e))))
           exactTransitiveConstraints0 exactTransitiveConstraints0)"

definition exactTransitiveDependenciesVersions ::
  "nat \<Rightarrow> semver \<Rightarrow> resolver \<Rightarrow> unit_version \<Rightarrow> unit_version list result" where
  "exactTransitiveDependenciesVersions fuel sv resolver self =
     rbind (exactTransitiveConstraints fuel sv resolver self)
       (mapM (satisfyingOrThrow sv resolver))"

definition inexactTransitiveDependencies ::
  "nat \<Rightarrow> semver \<Rightarrow> resolver \<Rightarrow> unit_version \<Rightarrow> dependencies_list result" where
  "inexactTransitiveDependencies fuel sv resolver self =
     rbind (exactTransitiveConstraints fuel sv resolver self) (\<lambda>exactTransitiveConstraints.
     rbind (eachM (\<lambda>c deps.
                     rbind (satisfyingOrThrow sv resolver c) (\<lambda>unitVersion.
                     ret (dl_union deps (uv_dependencies unitVersion))))
              exactTransitiveConstraints (uv_dependencies self)) (\<lambda>deps.
     ret (foldl (\<lambda>deps c. dl_remove deps (c_name c)) deps exactTransitiveConstraints)))"

subsection \<open>Search states and exact-constraint propagation\<close>

record state =
  dependencies :: dependencies_list
  constraints :: constraints_list
  choices :: "unit_version list"

text \<open>\<^verbatim>\<open>choicesDontViolateConstraints\<close>\<close>

definition choicesDontViolateConstraints ::
  "semver \<Rightarrow> unit_version list \<Rightarrow> constraints_list \<Rightarrow> bool" where
  "choicesDontViolateConstraints sv chs cs =
     (\<forall>uv \<in> set chs. \<not> cl_violated sv cs uv)"

text \<open>The constraints list built at lines 269-271 of the source.\<close>

definition newExactConstraintsList :: "unit_version \<Rightarrow> constraints_list \<Rightarrow> constraints_list" where
  "newExactConstraintsList uv cs =
     cl_union (dl_exactConstraintsIntersection (uv_dependencies uv) cs)
       (cl_exactDependenciesIntersection (uv_constraints uv) (uv_dependencies uv))"

text \<open>The \<^verbatim>\<open>transitiveConstraints\<close> of lines 249-252.\<close>

definition transitiveConstraints :: "unit_version list \<Rightarrow> unit_version \<Rightarrow> constraints_list" where
  "transitiveConstraints exactTransitiveDepsVersions uv =
     foldl (\<lambda>acc u. cl_union acc (uv_constraints u)) []
       (js_union exactTransitiveDepsVersions [uv])"

text \<open>
  One pass through the body of the \<^verbatim>\<open>while\<close> loop of
  \<^verbatim>\<open>_propagateExactTransDeps\<close>, up to and including the collection of
  \<^verbatim>\<open>exactDeps\<close>: it gives the new dependencies, constraints and choices, and
  \<^verbatim>\<open>exactDeps\<close>.
\<close>

definition propagateStep ::
  "nat \<Rightarrow> semver \<Rightarrow> resolver \<Rightarrow> unit_version \<Rightarrow> state \<Rightarrow> (state \<times> unit_version list) result" where
  "propagateStep fuel sv self uv st =
     (let choices1 = choices st @ [uv] in
      rbind (exactTransitiveDependenciesVersions fuel sv self uv) (\<lambda>exactTransitiveDepsVersions.
      rbind (inexactTransitiveDependencies fuel sv self uv) (\<lambda>inexactTransitiveDeps.
      let dependencies1 = dl_union (dependencies st) inexactTransitiveDeps;
          constraints1 = cl_union (constraints st)
                           (transitiveConstraints exactTransitiveDepsVersions uv);
          choices2 = js_union choices1 exactTransitiveDepsVersions;
          dependencies2 = foldl (\<lambda>deps u. dl_remove deps (uv_name u)) dependencies1 choices2
      in rbind (mapM (satisfyingOrThrow sv self) (newExactConstraintsList uv constraints1))
           (\<lambda>exactDeps.
              ret (\<lparr>dependencies = dependencies2, constraints = constraints1,
                    choices = choices2\<rparr>, exactDeps)))))"

text \<open>The last \<^verbatim>\<open>_.each\<close> of the loop body: enqueue the exact dependencies with a new name.\<close>

definition enqueueAll ::
  "unit_version list \<Rightarrow> unit_version list \<times> (string \<rightharpoonup> bool) \<Rightarrow>
   unit_version list \<times> (string \<rightharpoonup> bool)" where
  "enqueueAll exactDeps q =
     foldl (\<lambda>(queue, isEnqueued) dep.
              if js_has isEnqueued (uv_name dep) then (queue, isEnqueued)
              else (queue @ [dep], js_set isEnqueued (uv_name dep) True))
       q exactDeps"

fun propagateLoop ::
  "nat \<Rightarrow> semver \<Rightarrow> resolver \<Rightarrow> unit_version list \<Rightarrow> (string \<rightharpoonup> bool) \<Rightarrow> state \<Rightarrow>
   state result" where
  "propagateLoop fuel sv self [] isEnqueued st = ret st"
| "propagateLoop 0 sv self (uv # queue) isEnqueued st = None"
| "propagateLoop (Suc fuel) sv self (uv # queue) isEnqueued st =
     rbind (propagateStep fuel sv self uv st) (\<lambda>(st', exactDeps).
       case enqueueAll exactDeps (queue, isEnqueued) of
         (queue', isEnqueued') \<Rightarrow> propagateLoop fuel sv self queue' isEnqueued' st')"

definition propagateExactTransDeps ::
  "nat \<Rightarrow> semver \<Rightarrow> resolver \<Rightarrow> unit_version \<Rightarrow> dependencies_list \<Rightarrow> constraints_list \<Rightarrow>
   unit_version list \<Rightarrow> state result" where
  "propagateExactTransDeps fuel sv self uv deps cs chs =
     propagateLoop fuel sv self [uv] (js_set Map.empty (uv_name uv) True)
       \<lparr>dependencies = deps, constraints = cs, choices = chs\<rparr>"

subsection \<open>Neighbor expansion\<close>

datatype neighbors_obj =
  Failure (failureMsg: string) (triedUnitVersions: "unit_version list option")
    (lastInvalidNeighbor: "state option")
| Success (neighbors: "state list")

text \<open>
  The candidates are \<^verbatim>\<open>_.filter(self.unitsVersions[candidateName], ...)\<close>, read
  without \<^verbatim>\<open>_.has\<close>. \<^verbatim>\<open>_.filter\<close> of \<^verbatim>\<open>undefined\<close> is the empty array, and so
  is that of \<^verbatim>\<open>Object.prototype\<close>, which has nothing to visit. Of an inherited
  function it visits the indices below the function's \<^verbatim>\<open>length\<close>, whose values are
  \<^verbatim>\<open>undefined\<close>: the name of \<^verbatim>\<open>undefined\<close> is read (by \<^verbatim>\<open>violated\<close>, or at line
  237 for a candidate that was kept), which is a \<open>TypeError\<close>.
  The chained \<^verbatim>\<open>map\<close> finishes before the \<^verbatim>\<open>filter\<close> starts, so a throw of any
  propagation leaves the function. On a state without dependencies, which
  \<^verbatim>\<open>resolve\<close> never passes, the model has no result.
\<close>

definition candidateVersionsOf ::
  "semver \<Rightarrow> resolver \<Rightarrow> constraints_list \<Rightarrow> string \<Rightarrow> unit_version list result" where
  "candidateVersionsOf sv self cs candidateName =
     (case js_get (unitsVersions self) candidateName of
        Value uvs \<Rightarrow> ret (filter (\<lambda>uv. \<not> cl_violated sv cs uv) uvs)
      | Undefined \<Rightarrow> ret []
      | InheritedFunction n \<Rightarrow> if n = 0 then ret [] else throwTypeError
      | ObjectPrototype \<Rightarrow> ret [])"

definition stateNeighbors :: "nat \<Rightarrow> semver \<Rightarrow> resolver \<Rightarrow> state \<Rightarrow> neighbors_obj result" where
  "stateNeighbors fuel sv self st =
     (case dl_peek (dependencies st) of
        None \<Rightarrow> None
      | Some candidateName \<Rightarrow>
          let dependencies' = dl_remove (dependencies st) candidateName
          in rbind (candidateVersionsOf sv self (constraints st) candidateName)
               (\<lambda>candidateVersions.
             if candidateVersions = []
             then ret (Failure (''Cannot choose satisfying versions of package -- '' @ candidateName)
                         None None)
             else rbind (mapM (\<lambda>uv. propagateExactTransDeps fuel sv self uv dependencies'
                                       (constraints st) (choices st @ [uv]))
                           candidateVersions) (\<lambda>states.
                    let neighbors = filter (\<lambda>s. choicesDontViolateConstraints sv (choices s)
                                                   (constraints s)) states;
                        invalid = filter (\<lambda>s. \<not> choicesDontViolateConstraints sv (choices s)
                                                   (constraints s)) states
                    in if neighbors = []
                       then ret (Failure (''None of the versions unit produces a sensible result -- ''
                                            @ candidateName)
                                   (Some candidateVersions)
                                   (if invalid = [] then None else Some (last invalid)))
                       else ret (Success neighbors))))"

subsection \<open>The priority queue\<close>

text \<open>
  Modelled from the spec: \<^verbatim>\<open>PriorityQueue\<close> is not among the sources. The spec says
  that a state is keyed by a pair, that the smaller priority is popped first and that
  the second component breaks ties of the first. The queue is the list of its entries
  in insertion order; among entries with the same least key \<open>pq_pop\<close> takes the
  oldest (the spec leaves this open).
\<close>

type_synonym 'c pq = "(('c \<times> int) \<times> state) list"

definition key_le :: "('c::ord) \<times> int \<Rightarrow> 'c \<times> int \<Rightarrow> bool" where
  "key_le k k' = (fst k < fst k' \<or> (fst k = fst k' \<and> snd k \<le> snd k'))"

definition pq_push :: "'c pq \<Rightarrow> state \<Rightarrow> 'c \<times> int \<Rightarrow> 'c pq" where
  "pq_push pq item cost = pq @ [(cost, item)]"

fun pq_pop :: "('c::ord) pq \<Rightarrow> ((('c \<times> int) \<times> state) \<times> 'c pq) option" where
  "pq_pop [] = None"
| "pq_pop (e # es) =
     (case pq_pop es of
        None \<Rightarrow> Some (e, [])
      | Some (m, rest) \<Rightarrow>
          if key_le (fst e) (fst m) then Some (e, es) else Some (m, e # rest))"

subsection \<open>resolve\<close>

text \<open>The second argument of the cost callbacks: \<^verbatim>\<open>{ rootDependencies: ... }\<close>.\<close>

record opts =
  rootDependencies :: "string list"

text \<open>
  The \<^verbatim>\<open>options\<close> argument; an absent property is \<open>None\<close> (or \<open>False\<close>), and
  \<^verbatim>\<open>_.extend\<close> fills in the defaults. Costs are JavaScript numbers: the model needs
  their \<open>0\<close>, \<open>+\<close>, \<open>Infinity\<close> and order only, so it takes any type with these.
\<close>

record 'c options =
  costFunction :: "(unit_version list \<Rightarrow> opts \<Rightarrow> 'c) option"
  estimateCostFunction :: "(state \<Rightarrow> opts \<Rightarrow> 'c) option"
  combineCostFunction :: "('c \<Rightarrow> 'c \<Rightarrow> 'c) option"
  stopAfterFirstPropagation :: bool

definition costFunctionOf :: "('c::zero) options \<Rightarrow> unit_version list \<Rightarrow> opts \<Rightarrow> 'c" where
  "costFunctionOf options = (case costFunction options of None \<Rightarrow> (\<lambda>chs opts. 0) | Some f \<Rightarrow> f)"

definition estimateCostFunctionOf :: "('c::zero) options \<Rightarrow> state \<Rightarrow> opts \<Rightarrow> 'c" where
  "estimateCostFunctionOf options =
     (case estimateCostFunction options of None \<Rightarrow> (\<lambda>st opts. 0) | Some f \<Rightarrow> f)"

definition combineCostFunctionOf :: "('c::plus) options \<Rightarrow> 'c \<Rightarrow> 'c \<Rightarrow> 'c" where
  "combineCostFunctionOf options =
     (case combineCostFunction options of
        None \<Rightarrow> (\<lambda>cost anotherCost. cost + anotherCost)
      | Some f \<Rightarrow> f)"

text \<open>The key of a neighbor state (lines 140-144 of the source).\<close>

definition neighborKey :: "('c::{zero,plus}) options \<Rightarrow> opts \<Rightarrow> state \<Rightarrow> 'c \<times> int" where
  "neighborKey options opts st =
     (combineCostFunctionOf options (costFunctionOf options (choices st) opts)
        (estimateCostFunctionOf options st opts),
      - int (length (choices st)))"

text \<open>The key of the start state (lines 112-116 of the source).\<close>

definition startKey :: "('c::{zero,plus}) options \<Rightarrow> opts \<Rightarrow> state \<Rightarrow> 'c \<times> int" where
  "startKey options opts startState =
     (combineCostFunctionOf options (costFunctionOf options (choices startState) opts)
        (estimateCostFunctionOf options startState opts),
      0)"

text \<open>The queue when the loop is entered (lines 106-116 of the source).\<close>

definition startQueue :: "('c::{zero,plus}) options \<Rightarrow> opts \<Rightarrow> state \<Rightarrow> 'c pq" where
  "startQueue options opts startState =
     pq_push [] startState (startKey options opts startState)"

text \<open>
  One pass through the \<^verbatim>\<open>while (! pq.empty())\<close> loop: either the loop ends
  (\<open>Break\<close>, with the solution if one was found) or it goes on with a new queue and
  a new \<^verbatim>\<open>someError\<close>.
\<close>

datatype 'c iter = Break "unit_version list option" | Continue "'c pq" "string option"

definition resolveIter ::
  "nat \<Rightarrow> semver \<Rightarrow> resolver \<Rightarrow> ('c::{zero,plus,ord,infinity}) options \<Rightarrow> opts \<Rightarrow>
   'c pq \<Rightarrow> string option \<Rightarrow> 'c iter result" where
  "resolveIter fuel sv self options opts pq someError =
     (case pq_pop pq of
        None \<Rightarrow> ret (Break None)
      | Some ((cost, currentState), pq') \<Rightarrow>
          let tentativeCost =
                costFunctionOf options (choices currentState) opts +
                estimateCostFunctionOf options currentState opts
          in if tentativeCost = \<infinity> then ret (Break None)
             else if dl_isEmpty (dependencies currentState)
             then ret (Break (Some (choices currentState)))
             else rbind (stateNeighbors fuel sv self currentState) (\<lambda>neighborsObj.
                    case neighborsObj of
                      Failure msg tried lastInvalid \<Rightarrow>
                        ret (Continue pq' (case someError of None \<Rightarrow> Some msg | Some e \<Rightarrow> Some e))
                    | Success ns \<Rightarrow>
                        ret (Continue
                               (foldl (\<lambda>pq st. pq_push pq st (neighborKey options opts st))
                                  pq' ns)
                               someError)))"

text \<open>
  What follows the loop (lines 149-156 of the source). The message of the last throw is
  written in two pieces; it is the source's single string.
\<close>

definition resolveEnd :: "unit_version list option \<Rightarrow> string option \<Rightarrow> unit_version list result" where
  "resolveEnd solution someError =
     (case solution of
        Some s \<Rightarrow> ret s
      | None \<Rightarrow>
          (case someError of
             Some e \<Rightarrow> throw e
           | None \<Rightarrow> throw (''Couldn't resolve, I am so'' @ ''rry'')))"

fun resolveLoop ::
  "nat \<Rightarrow> semver \<Rightarrow> resolver \<Rightarrow> ('c::{zero,plus,ord,infinity}) options \<Rightarrow> opts \<Rightarrow>
   'c pq \<Rightarrow> string option \<Rightarrow> unit_version list result" where
  "resolveLoop 0 sv self options opts pq someError = None"
| "resolveLoop (Suc fuel) sv self options opts pq someError =
     rbind (resolveIter fuel sv self options opts pq someError) (\<lambda>it.
       case it of
         Break solution \<Rightarrow> resolveEnd solution someError
       | Continue pq' someError' \<Rightarrow> resolveLoop fuel sv self options opts pq' someError')"

text \<open>
  The beginning of \<^verbatim>\<open>resolve\<close>, up to the start state with \<open>target\<close> filtered out.
  \<^verbatim>\<open>constraints || []\<close> and \<^verbatim>\<open>choices || []\<close>: an omitted, \<^verbatim>\<open>null\<close> or
  \<^verbatim>\<open>undefined\<close> argument is \<open>None\<close>.
\<close>

definition resolveStart ::
  "nat \<Rightarrow> semver \<Rightarrow> resolver \<Rightarrow> string list \<Rightarrow> constraint list option \<Rightarrow>
   unit_version list option \<Rightarrow> state result" where
  "resolveStart fuel sv self dependencies0 constraints0 choices0 =
     (let constraints1 = (case constraints0 of None \<Rightarrow> [] | Some cs \<Rightarrow> cs);
          choices1 = (case choices0 of None \<Rightarrow> [] | Some chs \<Rightarrow> chs);
          deps = dl_fromArray dependencies0;
          cs = cl_fromArray constraints1;
          appUV = (UnitVersion ''target'' ''1.0.0'' ''0.0.0'')
                    \<lparr>uv_dependencies := deps, uv_constraints := cs\<rparr>
      in rbind (propagateExactTransDeps fuel sv self appUV deps cs choices1)
           (\<lambda>startState.
              ret (startState\<lparr>choices := filter (\<lambda>uv. uv_name uv \<noteq> ''target'')
                                           (choices startState)\<rparr>)))"

definition resolve ::
  "nat \<Rightarrow> semver \<Rightarrow> resolver \<Rightarrow> string list \<Rightarrow> constraint list option \<Rightarrow>
   unit_version list option \<Rightarrow> ('c::{zero,plus,ord,infinity}) options \<Rightarrow> unit_version list result" where
  "resolve fuel sv self dependencies0 constraints0 choices0 options =
     rbind (resolveStart fuel sv self dependencies0 constraints0 choices0) (\<lambda>startState.
       if stopAfterFirstPropagation options then ret (choices startState)
       else let opts = \<lparr>rootDependencies = dependencies0\<rparr>
            in resolveLoop fuel sv self options opts
                 (startQueue options opts startState) None)"

subsection \<open>A concrete order for examples\<close>

text \<open>
  The examples compare version strings character by character. On versions whose
  components have one digit each (\<open>1.0.0\<close>, \<open>1.2.3\<close>) this is the semver order.
\<close>

fun str_lt :: "string \<Rightarrow> string \<Rightarrow> bool" where
  "str_lt [] [] = False"
| "str_lt [] (y # ys) = True"
| "str_lt (x # xs) [] = False"
| "str_lt (x # xs) (y # ys) =
     ((of_char x :: nat) < of_char y \<or> (x = y \<and> str_lt xs ys))"

definition semver0 :: semver where
  "semver0 = \<lparr>semver_lt = str_lt, semver_lte = (\<lambda>a b. \<not> str_lt b a)\<rparr>"

text \<open>The default options of \<^verbatim>\<open>resolve\<close>, with costs in \<^typ>\<open>enat\<close>.\<close>

definition opts0 :: "enat options" where
  "opts0 = \<lparr>costFunction = None, estimateCostFunction = None, combineCostFunction = None,
            stopAfterFirstPropagation = False\<rparr>"

text \<open>
  A small universe: \<open>A@1.0.0\<close> depends on \<open>B\<close> and pins it to \<open>1.0.0\<close>;
  \<open>B\<close> has the versions \<open>1.0.0\<close> and \<open>2.0.0\<close>. \<open>ex_A0\<close> depends on
  \<open>B\<close> without a constraint.
\<close>

definition ex_cA :: constraint where
  "ex_cA = \<lparr>c_name = ''A'', c_exact = True, c_version = ''1.0.0''\<rparr>"

definition ex_cB1 :: constraint where
  "ex_cB1 = \<lparr>c_name = ''B'', c_exact = True, c_version = ''1.0.0''\<rparr>"

definition ex_cB2 :: constraint where
  "ex_cB2 = \<lparr>c_name = ''B'', c_exact = True, c_version = ''2.0.0''\<rparr>"


definition ex_A1 :: unit_version where
  "ex_A1 = (UnitVersion ''A'' ''1.0.0'' ''1.0.0'')
             \<lparr>uv_dependencies := [''B''], uv_constraints := [ex_cB1]\<rparr>"


definition ex_B1 :: unit_version where
  "ex_B1 = UnitVersion ''B'' ''1.0.0'' ''1.0.0''"

definition ex_B2 :: unit_version where
  "ex_B2 = UnitVersion ''B'' ''2.0.0'' ''2.0.0''"

definition ex_registry :: resolver where
  "ex_registry = registryOf (addAll semver0 [ex_A1, ex_B1, ex_B2])"




definition ex_registry_eq :: resolver where
  "ex_registry_eq = registryOf (addAll semver0 [UnitVersion ''a=b'' ''1.0.0'' ''1.0.0''])"

text \<open>States and a queue of the examples.\<close>

definition ex_start :: state where
  "ex_start = \<lparr>dependencies = [], constraints = [ex_cB1], choices = [ex_B1]\<rparr>"

definition ex_conflict :: state where
  "ex_conflict = \<lparr>dependencies = [], constraints = [ex_cA, ex_cB2, ex_cB1],
                   choices = [ex_A1, ex_B2, ex_B1]\<rparr>"

definition ex_open :: state where
  "ex_open = \<lparr>dependencies = [''B''], constraints = [], choices = []\<rparr>"

definition ex_pq1 :: "enat pq" where
  "ex_pq1 = [((0, - 1), \<lparr>dependencies = [], constraints = [], choices = [ex_B1]\<rparr>),
             ((0, - 1), \<lparr>dependencies = [], constraints = [], choices = [ex_B2]\<rparr>)]"


definition ex_registry_B :: resolver where
  "ex_registry_B = registryOf (addAll semver0 [ex_B1, ex_B2])"

definition ex_proto :: unit_version where
  "ex_proto = UnitVersion ''__proto__'' ''1.0.0'' ''1.0.0''"

subsection \<open>An invariant of the registry\<close>

text \<open>
  What the proofs keep about a registry \<open>r\<close> built by adding \<open>uvs\<close>: every added
  unit version has its name and its \<open>name@version\<close> string registered, the latest
  version of its name is not below its version, and the latest version of a name is
  the version of an added unit version of that name.
\<close>

definition registered :: "semver \<Rightarrow> resolver \<Rightarrow> unit_version list \<Rightarrow> bool" where
  "registered sv r uvs \<longleftrightarrow>
     (\<forall>u \<in> set uvs. unitsVersions r (uv_name u) \<noteq> None \<and>
        unitsVersionsMap r (uv_toString u) \<noteq> None \<and>
        (\<exists>l. latestVersion r (uv_name u) = Some l \<and> \<not> semver_lt sv l (uv_version u))) \<and>
     (\<forall>n. unitsVersions r n \<noteq> None \<longrightarrow> latestVersion r n \<noteq> None) \<and>
     (\<forall>n l. latestVersion r n = Some l \<longrightarrow> (\<exists>u \<in> set uvs. uv_name u = n \<and> uv_version u = l))"

subsection \<open>The fatal error of a propagation\<close>


section \<open>Properties\<close>

subsection \<open>Constraint.isSatisfied\<close>

text \<open>
  C4. An exact constraint is satisfied by a unit version iff the version strings are
  equal, whatever the unit version's ecv is; an inexact one iff
  \<open>c.version \<le> uv.version\<close> and \<open>uv.ecv \<le> c.version\<close> in the semver order.
\<close>

theorem isSatisfied_spec:
  "(c_exact c \<longrightarrow> (\<forall>e. isSatisfied sv c (uv\<lparr>uv_ecv := e\<rparr>) = (uv_version uv = c_version c))) \<and>
   (\<not> c_exact c \<longrightarrow>
      isSatisfied sv c uv =
        (semver_lte sv (c_version c) (uv_version uv) \<and> semver_lte sv (uv_ecv uv) (c_version c)))"
  by (auto simp: isSatisfied_def)

theorem isSatisfied_spec_witness:
  "isSatisfied semver0 \<lparr>c_name = ''B'', c_exact = True, c_version = ''1.2.3''\<rparr>
     ((UnitVersion ''B'' ''1.2.3'' ''1.0.0'')\<lparr>uv_ecv := ''9.9.9''\<rparr>) \<and>
   isSatisfied semver0 \<lparr>c_name = ''B'', c_exact = False, c_version = ''1.0.0''\<rparr>
     (UnitVersion ''B'' ''1.1.0'' ''1.0.0'') \<and>
   \<not> isSatisfied semver0 \<lparr>c_name = ''B'', c_exact = False, c_version = ''1.0.0''\<rparr>
     (UnitVersion ''B'' ''2.0.0'' ''2.0.0'')"
  using isSatisfied_spec [of "\<lparr>c_name = ''B'', c_exact = True, c_version = ''1.2.3''\<rparr>"
          semver0 "UnitVersion ''B'' ''1.2.3'' ''1.0.0''"]
        isSatisfied_spec [of "\<lparr>c_name = ''B'', c_exact = False, c_version = ''1.0.0''\<rparr>"
          semver0 "UnitVersion ''B'' ''1.1.0'' ''1.0.0''"]
        isSatisfied_spec [of "\<lparr>c_name = ''B'', c_exact = False, c_version = ''1.0.0''\<rparr>"
          semver0 "UnitVersion ''B'' ''2.0.0'' ''2.0.0''"]
  by (simp add: UnitVersion_def semver0_def)

subsection \<open>Helper lemmas on results\<close>

lemma result_cases:
  obtains (Diverge) "r = None" | (Throw) e where "r = Some (Inl e)" | (Return) x where "r = ret x"
proof (cases r)
  case None
  then show ?thesis by (rule Diverge)
next
  case (Some a)
  then show ?thesis
    by (cases a) (auto simp: ret_def intro: Throw Return)
qed

lemma rbind_ret_iff: "rbind m f = ret y \<longleftrightarrow> (\<exists>x. m = ret x \<and> f x = ret y)"
  by (cases m rule: result_cases) (auto simp: ret_def)


lemma rbind_ret [simp]: "rbind (ret x) f = f x"
  by (simp add: ret_def)

lemma ret_neq_throw [simp]:
  "ret x \<noteq> Some (Inl e)" "Some (Inl e) \<noteq> ret x" "ret x \<noteq> None" "None \<noteq> ret x"
  by (simp_all add: ret_def)

lemma ret_inject [simp]: "ret x = ret y \<longleftrightarrow> x = y"
  by (simp add: ret_def)


lemma mapM_ret_all:
  "mapM f xs = ret ys \<Longrightarrow> \<forall>y \<in> set ys. \<exists>x \<in> set xs. f x = ret y"
proof (induction xs arbitrary: ys)
  case Nil
  then show ?case by simp
next
  case (Cons x xs)
  from Cons.prems obtain y0 ys0 where
    "f x = ret y0" "mapM f xs = ret ys0" "ys = y0 # ys0"
    by (auto simp: rbind_ret_iff)
  with Cons.IH [of ys0] show ?case by auto
qed






subsection \<open>resolve: absent arguments\<close>

text \<open>
  C10. \<^verbatim>\<open>resolve\<close> treats an omitted, \<^verbatim>\<open>null\<close> or \<^verbatim>\<open>undefined\<close>
  \<^verbatim>\<open>constraints\<close> and \<^verbatim>\<open>choices\<close> argument as the empty array: for all
  dependencies and options the result is that of \<^verbatim>\<open>resolve(deps, [], [], options)\<close>.
\<close>

theorem resolve_null_arguments:
  "resolve fuel sv self deps None None options =
   resolve fuel sv self deps (Some []) (Some []) options"
  by (simp add: resolve_def resolveStart_def)

subsection \<open>Constraint.getSatisfyingUnitVersion\<close>

lemma replace_first_append:
  "ch \<notin> set xs \<Longrightarrow> replace_first ch (xs @ ch # ys) = xs @ ys"
  by (induction xs) auto

text \<open>
  For a name without \<open>=\<close> the key of an exact constraint is \<open>name@version\<close>, and
  the lookup is the one in the interning map.
\<close>

lemma replace_first_toString:
  assumes "CHR ''='' \<notin> set (c_name c)" and "c_exact c"
  shows "replace_first CHR ''='' (c_toString c) = c_name c @ ''@'' @ c_version c"
proof -
  have "c_toString c = (c_name c @ ''@'') @ CHR ''='' # c_version c"
    using assms(2) by (simp add: c_toString_def)
  moreover have "CHR ''='' \<notin> set (c_name c @ ''@'')"
    using assms(1) by simp
  ultimately show ?thesis
    using replace_first_append [of "CHR ''=''" "c_name c @ ''@''" "c_version c"] by simp
qed

lemma getSatisfyingUnitVersion_exact:
  assumes "CHR ''='' \<notin> set (c_name c)" and "c_exact c"
  shows "getSatisfyingUnitVersion sv c r =
           ret (unitsVersionsMap r (c_name c @ ''@'' @ c_version c))"
  using assms by (simp add: getSatisfyingUnitVersion_def replace_first_toString)

text \<open>
  C6. An exact constraint is resolved by the lookup of \<open>name@version\<close> in the interning
  map. The source computes the key as \<^verbatim>\<open>toString().replace("=", "")\<close>, which deletes
  the first \<open>=\<close> of \<open>name@=version\<close>: for the name \<open>a=b\<close> it looks up
  \<open>ab@=1.0.0\<close> and finds nothing, although \<open>a=b@1.0.0\<close> is registered.
\<close>

theorem getSatisfyingUnitVersion_name_with_equals_sign:
  "unitsVersionsMap ex_registry_eq (''a=b'' @ ''@'' @ ''1.0.0'') =
     Some (UnitVersion ''a=b'' ''1.0.0'' ''1.0.0'') \<and>
   getSatisfyingUnitVersion semver0 \<lparr>c_name = ''a=b'', c_exact = True, c_version = ''1.0.0''\<rparr>
     ex_registry_eq = ret None"
  by code_simp

subsection \<open>Neighbor expansion on an unregistered name\<close>

text \<open>
  For a name that is neither registered nor the name of a property that a plain object
  inherits, \<^verbatim>\<open>_stateNeighbors\<close> returns the failure "Cannot choose satisfying
  versions of package -- name", as it does when every registered version of the name is
  violated, and the loop of \<^verbatim>\<open>resolve\<close> records the message and goes on.
\<close>

lemma stateNeighbors_unregistered_ordinary_name:
  assumes "dl_peek (dependencies st) = Some name" and "unitsVersions self name = None"
    and "objectPrototype name = (Undefined :: unit_version list js_value)"
  shows "stateNeighbors fuel sv self st =
           ret (Failure (''Cannot choose satisfying versions of package -- '' @ name) None None)"
    and "unitsVersions self' name = Some uvs \<Longrightarrow>
         \<forall>uv \<in> set uvs. cl_violated sv (constraints st) uv \<Longrightarrow>
         stateNeighbors fuel sv self' st = stateNeighbors fuel sv self st"
proof -
  show 1: "stateNeighbors fuel sv self st =
           ret (Failure (''Cannot choose satisfying versions of package -- '' @ name) None None)"
    using assms by (simp add: stateNeighbors_def candidateVersionsOf_def js_get_def)
  assume a: "unitsVersions self' name = Some uvs" "\<forall>uv \<in> set uvs. cl_violated sv (constraints st) uv"
  have "filter (\<lambda>uv. \<not> cl_violated sv (constraints st) uv) uvs = []"
    using a(2) by (simp add: filter_empty_conv)
  then show "stateNeighbors fuel sv self' st = stateNeighbors fuel sv self st"
    using a(1) assms(1) 1 by (simp add: stateNeighbors_def candidateVersionsOf_def js_get_def)
qed

text \<open>
  C8. An unregistered dependency name is a local dead end of the search, not a fatal
  error. For the name \<open>constructor\<close>, which no unit version of the registry has,
  \<^verbatim>\<open>self.unitsVersions[candidateName]\<close> (read at line 183 without the \<^verbatim>\<open>_.has\<close> of
  line 32) is the function that every plain object inherits: \<^verbatim>\<open>_stateNeighbors\<close>
  throws a \<open>TypeError\<close>, and so does \<^verbatim>\<open>resolve\<close>.
\<close>

theorem stateNeighbors_inherited_name_throws:
  "unitsVersions ex_registry ''constructor'' = None \<and>
   stateNeighbors 1 semver0 ex_registry
     \<lparr>dependencies = [''constructor''], constraints = [], choices = []\<rparr> = throwTypeError \<and>
   resolve 4 semver0 ex_registry [''constructor''] None None opts0 = throwTypeError"
  by code_simp

subsection \<open>The priority queue and its keys\<close>

lemma pq_pop_None: "pq_pop pq = None \<longleftrightarrow> pq = []"
  by (cases pq) (auto split: option.splits)

lemma pq_pop_set:
  "pq_pop pq = Some (e, rest) \<Longrightarrow> set pq = insert e (set rest) \<and> length pq = Suc (length rest)"
proof (induction pq arbitrary: e rest)
  case Nil
  then show ?case by simp
next
  case (Cons a pq)
  then show ?case
    by (auto simp: pq_pop_None split: option.splits if_splits)
qed

lemma key_le_total: "key_le (k :: ('c::linorder) \<times> int) k' \<or> key_le k' k"
  by (auto simp: key_le_def)

lemma key_le_trans: "key_le (a :: ('c::linorder) \<times> int) b \<Longrightarrow> key_le b c \<Longrightarrow> key_le a c"
  by (auto simp: key_le_def)

lemma key_le_refl: "key_le (a :: ('c::linorder) \<times> int) a"
  by (auto simp: key_le_def)

lemma pq_pop_min:
  fixes pq :: "('c::linorder) pq"
  shows "pq_pop pq = Some (e, rest) \<Longrightarrow> \<forall>e' \<in> set pq. key_le (fst e) (fst e')"
proof (induction pq arbitrary: e rest)
  case Nil
  then show ?case by simp
next
  case (Cons a pq)
  show ?case
  proof (cases "pq_pop pq")
    case None
    then have "pq = []" by (simp add: pq_pop_None)
    with Cons.prems show ?thesis by (simp add: key_le_refl)
  next
    case (Some mr)
    obtain m r where mr: "mr = (m, r)" by (cases mr)
    have IH: "\<forall>e' \<in> set pq. key_le (fst m) (fst e')"
      using Cons.IH Some mr by blast
    show ?thesis
    proof (cases "key_le (fst a) (fst m)")
      case True
      then have "e = a" using Cons.prems Some mr by simp
      with True IH show ?thesis by (auto intro: key_le_trans simp: key_le_refl)
    next
      case False
      then have "e = m" using Cons.prems Some mr by simp
      moreover have "key_le (fst m) (fst a)" using False key_le_total by blast
      ultimately show ?thesis using IH by auto
    qed
  qed
qed

lemma foldl_push_set:
  "set (foldl (\<lambda>pq st. pq_push pq st (f st)) pq ns) = set pq \<union> (\<lambda>s. (f s, s)) ` set ns"
  by (induction ns arbitrary: pq) (auto simp: pq_push_def)

text \<open>
  C3 (as amended). The start state enters the queue with the key
  \<open>(combine(cost(choices), estimate(state)), 0)\<close>; every state that a pass of the loop
  adds to the queue is a neighbor keyed by
  \<open>(combine(cost(choices), estimate(state)), -|choices|)\<close>; and \<open>pop\<close> removes an entry
  whose key is least in the lexicographic order, so that among equal first components
  the smaller second component, that of the state with more choices, goes first.
\<close>

theorem queue_keys:
  fixes options :: "('c::{zero,plus,linorder,infinity}) options"
  shows
  "startQueue options opts start =
     [((combineCostFunctionOf options (costFunctionOf options (choices start) opts)
          (estimateCostFunctionOf options start opts), 0), start)] \<and>
   (resolveStart fuel sv self deps0 cs0 chs0 = ret start \<and> \<not> stopAfterFirstPropagation options \<longrightarrow>
      resolve fuel sv self deps0 cs0 chs0 options =
        resolveLoop fuel sv self options \<lparr>rootDependencies = deps0\<rparr>
          (startQueue options \<lparr>rootDependencies = deps0\<rparr> start) None) \<and>
   (resolveIter fuel sv self options opts pq someError = ret (Continue pq1 se) \<longrightarrow>
      (\<forall>(k, s) \<in> set pq1. (k, s) \<in> set pq \<or>
          k = (combineCostFunctionOf options (costFunctionOf options (choices s) opts)
                 (estimateCostFunctionOf options s opts),
               - int (length (choices s))))) \<and>
   (pq_pop pq = Some ((k, s), rest) \<longrightarrow>
      set pq = insert (k, s) (set rest) \<and> length pq = Suc (length rest) \<and>
      (\<forall>(k', s') \<in> set pq. fst k < fst k' \<or> (fst k = fst k' \<and> snd k \<le> snd k')))"
proof (intro conjI impI)
  show "startQueue options opts start =
     [((combineCostFunctionOf options (costFunctionOf options (choices start) opts)
          (estimateCostFunctionOf options start opts), 0), start)]"
    by (simp add: startQueue_def startKey_def pq_push_def)
next
  assume "resolveStart fuel sv self deps0 cs0 chs0 = ret start \<and> \<not> stopAfterFirstPropagation options"
  then show "resolve fuel sv self deps0 cs0 chs0 options =
        resolveLoop fuel sv self options \<lparr>rootDependencies = deps0\<rparr>
          (startQueue options \<lparr>rootDependencies = deps0\<rparr> start) None"
    by (simp add: resolve_def Let_def)
next
  assume a: "resolveIter fuel sv self options opts pq someError = ret (Continue pq1 se)"
  show "\<forall>(k, s) \<in> set pq1. (k, s) \<in> set pq \<or>
          k = (combineCostFunctionOf options (costFunctionOf options (choices s) opts)
                 (estimateCostFunctionOf options s opts),
               - int (length (choices s)))"
  proof (cases "pq_pop pq")
    case None
    with a show ?thesis by (simp add: resolveIter_def)
  next
    case (Some x)
    obtain k0 cur pq' where x: "x = ((k0, cur), pq')" by (cases x) auto
    have sub: "set pq' \<subseteq> set pq" using pq_pop_set Some x by fastforce
    from a Some x obtain nobj where
      n: "stateNeighbors fuel sv self cur = ret nobj"
      and c: "(case nobj of
                 Failure msg tried lastInvalid \<Rightarrow>
                   ret (Continue pq' (case someError of None \<Rightarrow> Some msg | Some e \<Rightarrow> Some e))
               | Success ns \<Rightarrow>
                   ret (Continue
                          (foldl (\<lambda>pq st. pq_push pq st (neighborKey options opts st)) pq' ns)
                          someError)) = ret (Continue pq1 se)"
      by (auto simp: resolveIter_def Let_def rbind_ret_iff split: if_splits)
    show ?thesis
    proof (cases nobj)
      case (Failure msg tried lastInvalid)
      with c have "pq1 = pq'" by simp
      with sub show ?thesis by auto
    next
      case (Success ns)
      with c have "pq1 = foldl (\<lambda>pq st. pq_push pq st (neighborKey options opts st)) pq' ns"
        by simp
      then have "set pq1 = set pq' \<union> (\<lambda>s. (neighborKey options opts s, s)) ` set ns"
        by (simp add: foldl_push_set)
      with sub show ?thesis by (auto simp: neighborKey_def)
    qed
  qed
next
  assume a: "pq_pop pq = Some ((k, s), rest)"
  show "set pq = insert (k, s) (set rest)" using pq_pop_set [OF a] by simp
  show "length pq = Suc (length rest)" using pq_pop_set [OF a] by simp
  show "\<forall>(k', s') \<in> set pq. fst k < fst k' \<or> (fst k = fst k' \<and> snd k \<le> snd k')"
    using pq_pop_min [OF a] by (auto simp: key_le_def)
qed

theorem queue_keys_witness:
  "startQueue opts0 \<lparr>rootDependencies = [''B'']\<rparr> ex_start = [((0, 0), ex_start)] \<and>
   resolveIter 2 semver0 ex_registry opts0 \<lparr>rootDependencies = [''B'']\<rparr> [((0, 0), ex_open)] None =
     ret (Continue ex_pq1 None) \<and>
   list_all (\<lambda>(k, s). k = (0, - int (length (choices s)))) ex_pq1 \<and>
   pq_pop ex_pq1 = Some (((0, - 1), \<lparr>dependencies = [], constraints = [], choices = [ex_B1]\<rparr>),
                         [((0, - 1), \<lparr>dependencies = [], constraints = [], choices = [ex_B2]\<rparr>)])"
proof -
  have sq: "startQueue opts0 \<lparr>rootDependencies = [''B'']\<rparr> ex_start = [((0, 0), ex_start)]"
    using queue_keys [where options = opts0 and opts = "\<lparr>rootDependencies = [''B'']\<rparr>"
        and start = ex_start, THEN conjunct1]
    by (simp add: opts0_def combineCostFunctionOf_def costFunctionOf_def
        estimateCostFunctionOf_def)
  have it: "resolveIter 2 semver0 ex_registry opts0 \<lparr>rootDependencies = [''B'']\<rparr>
              [((0, 0), ex_open)] None = ret (Continue ex_pq1 None)"
    by code_simp
  have "\<forall>(k, s) \<in> set ex_pq1. (k, s) \<in> set [((0, 0), ex_open)] \<or>
          k = (combineCostFunctionOf opts0
                 (costFunctionOf opts0 (choices s) \<lparr>rootDependencies = [''B'']\<rparr>)
                 (estimateCostFunctionOf opts0 s \<lparr>rootDependencies = [''B'']\<rparr>),
               - int (length (choices s)))"
    using queue_keys [where options = opts0, THEN conjunct2, THEN conjunct2, THEN conjunct1,
        THEN mp, OF it] .
  then have "list_all (\<lambda>(k, s). k = (0, - int (length (choices s)))) ex_pq1"
    by (simp add: ex_pq1_def ex_open_def list_all_iff opts0_def combineCostFunctionOf_def
        costFunctionOf_def estimateCostFunctionOf_def)
  moreover have "pq_pop ex_pq1 =
      Some (((0, - 1), \<lparr>dependencies = [], constraints = [], choices = [ex_B1]\<rparr>),
            [((0, - 1), \<lparr>dependencies = [], constraints = [], choices = [ex_B2]\<rparr>)])"
    by (simp add: ex_pq1_def key_le_def)
  ultimately show ?thesis using sq it by blast
qed

text \<open>
  C3 as stated fails for the start state: in the run below propagation has made one
  choice, so the claimed key is \<open>(0, -1)\<close>, and the queue that the loop starts from
  holds the start state under \<open>(0, 0)\<close>.
\<close>

theorem start_state_key_counterexample:
  "resolveStart 3 semver0 ex_registry [''B''] (Some [ex_cB1]) None = ret ex_start \<and>
   startQueue opts0 \<lparr>rootDependencies = [''B'']\<rparr> ex_start = [((0, 0), ex_start)] \<and>
   (combineCostFunctionOf opts0
      (costFunctionOf opts0 (choices ex_start) \<lparr>rootDependencies = [''B'']\<rparr>)
      (estimateCostFunctionOf opts0 ex_start \<lparr>rootDependencies = [''B'']\<rparr>),
    - int (length (choices ex_start))) = (0, - 1) \<and>
   startQueue opts0 \<lparr>rootDependencies = [''B'']\<rparr> ex_start \<noteq> [((0, - 1), ex_start)]"
proof -
  have 1: "resolveStart 3 semver0 ex_registry [''B''] (Some [ex_cB1]) None = ret ex_start"
    by code_simp
  have 2: "startQueue opts0 \<lparr>rootDependencies = [''B'']\<rparr> ex_start = [((0, 0), ex_start)]"
    by (simp add: startQueue_def pq_push_def startKey_def opts0_def combineCostFunctionOf_def
        costFunctionOf_def estimateCostFunctionOf_def)
  have 3: "(combineCostFunctionOf opts0
      (costFunctionOf opts0 (choices ex_start) \<lparr>rootDependencies = [''B'']\<rparr>)
      (estimateCostFunctionOf opts0 ex_start \<lparr>rootDependencies = [''B'']\<rparr>),
    - int (length (choices ex_start))) = (0, - 1)"
    by (simp add: opts0_def combineCostFunctionOf_def costFunctionOf_def
        estimateCostFunctionOf_def ex_start_def)
  have 4: "startQueue opts0 \<lparr>rootDependencies = [''B'']\<rparr> ex_start \<noteq> [((0, - 1), ex_start)]"
    unfolding 2 by simp
  show ?thesis using 1 2 3 4 by blast
qed

subsection \<open>A missing unit version for an exact constraint\<close>




















subsection \<open>What holds of every search state\<close>

text \<open>
  \<^verbatim>\<open>_.union\<close> ends every pass of the propagation loop, so the choices of a
  propagated state have no repeated entry; the neighbors that \<^verbatim>\<open>_stateNeighbors\<close>
  returns have passed \<^verbatim>\<open>choicesDontViolateConstraints\<close>.
\<close>

lemma distinct_push_new: "distinct xs \<Longrightarrow> distinct (push_new xs x)"
  by (simp add: push_new_def)

lemma distinct_foldl_push_new: "distinct acc \<Longrightarrow> distinct (foldl push_new acc xs)"
  by (induction xs arbitrary: acc) (simp_all add: distinct_push_new)

lemma distinct_js_union: "distinct (js_union xs ys)"
  by (simp add: js_union_def uniq_def distinct_foldl_push_new)

lemma propagateStep_distinct:
  assumes "propagateStep fuel sv self uv st = ret (st', exactDeps)"
  shows "distinct (choices st')"
proof -
  from assms obtain etdv where
    "choices st' = js_union (choices st @ [uv]) etdv"
    by (auto simp: propagateStep_def Let_def rbind_ret_iff)
  then show ?thesis by (simp add: distinct_js_union)
qed

lemma propagateLoop_distinct:
  "propagateLoop fuel sv self queue isEnqueued st = ret s \<Longrightarrow>
   queue \<noteq> [] \<or> distinct (choices st) \<Longrightarrow> distinct (choices s)"
proof (induction fuel sv self queue isEnqueued st rule: propagateLoop.induct)
  case (1 fuel sv self isEnqueued st)
  then show ?case by (simp add: ret_def)
next
  case (2 sv self uv queue isEnqueued st)
  then show ?case by (simp add: ret_def)
next
  case (3 fuel sv self uv queue isEnqueued st)
  from "3.prems"(1) obtain st' exactDeps where
    step: "propagateStep fuel sv self uv st = ret (st', exactDeps)" and
    rest: "(case enqueueAll exactDeps (queue, isEnqueued) of
         (queue', isEnqueued') \<Rightarrow> propagateLoop fuel sv self queue' isEnqueued' st') = ret s"
    by (auto simp: rbind_ret_iff)
  obtain queue' isEnqueued' where q: "enqueueAll exactDeps (queue, isEnqueued) = (queue', isEnqueued')"
    by (cases "enqueueAll exactDeps (queue, isEnqueued)")
  have "distinct (choices st')" using step by (rule propagateStep_distinct)
  moreover have "propagateLoop fuel sv self queue' isEnqueued' st' = ret s"
    using rest q by simp
  ultimately show ?case
    using "3.IH" [OF q [symmetric]] by simp
qed

lemma resolveStart_distinct:
  assumes "resolveStart fuel sv self deps0 cs0 chs0 = ret s"
  shows "distinct (choices s)"
proof -
  from assms obtain startState queue isEnqueued st where
    p: "propagateLoop fuel sv self queue isEnqueued st = ret startState" "queue \<noteq> []" and
    s: "s = startState\<lparr>choices := filter (\<lambda>uv. uv_name uv \<noteq> ''target'') (choices startState)\<rparr>"
    unfolding resolveStart_def Let_def propagateExactTransDeps_def rbind_ret_iff
    by (auto simp: ret_def)
  from p have "distinct (choices startState)"
    by (auto dest: propagateLoop_distinct)
  with s show ?thesis by simp
qed

lemma stateNeighbors_distinct:
  assumes "stateNeighbors fuel sv self st = ret (Success ns)" and "s \<in> set ns"
  shows "distinct (choices s) \<and> choicesDontViolateConstraints sv (choices s) (constraints s)"
proof -
  from assms(1) obtain name where name: "dl_peek (dependencies st) = Some name"
    by (cases "dl_peek (dependencies st)") (auto simp: stateNeighbors_def)
  let ?f = "\<lambda>uv. propagateExactTransDeps fuel sv self uv (dl_remove (dependencies st) name)
               (constraints st) (choices st @ [uv])"
  from assms(1) name obtain cands where
    c: "candidateVersionsOf sv self (constraints st) name = ret cands" and
    r0: "(if cands = []
          then ret (Failure (''Cannot choose satisfying versions of package -- '' @ name) None None)
          else rbind (mapM ?f cands) (\<lambda>states.
             let neighbors = filter (\<lambda>s. choicesDontViolateConstraints sv (choices s) (constraints s)) states;
                 invalid = filter (\<lambda>s. \<not> choicesDontViolateConstraints sv (choices s) (constraints s)) states
             in if neighbors = []
                then ret (Failure (''None of the versions unit produces a sensible result -- '' @ name)
                            (Some cands) (if invalid = [] then None else Some (last invalid)))
                else ret (Success neighbors))) = ret (Success ns)"
    by (auto simp: stateNeighbors_def Let_def rbind_ret_iff)
  from r0 have ne: "cands \<noteq> []" by auto
  with r0 obtain states where
    m: "mapM ?f cands = ret states" and
    r: "(let neighbors = filter (\<lambda>s. choicesDontViolateConstraints sv (choices s) (constraints s)) states;
             invalid = filter (\<lambda>s. \<not> choicesDontViolateConstraints sv (choices s) (constraints s)) states
         in if neighbors = []
            then ret (Failure (''None of the versions unit produces a sensible result -- '' @ name)
                        (Some cands) (if invalid = [] then None else Some (last invalid)))
            else ret (Success neighbors)) = ret (Success ns)"
    by (auto simp: rbind_ret_iff)
  from r have ns: "ns = filter (\<lambda>s. choicesDontViolateConstraints sv (choices s) (constraints s)) states"
    by (auto simp: Let_def split: if_splits)
  from ns assms(2) have v: "choicesDontViolateConstraints sv (choices s) (constraints s)"
    and "s \<in> set states" by auto
  with mapM_ret_all [OF m] obtain uv where "?f uv = ret s" by blast
  then have "distinct (choices s)"
    by (auto simp: propagateExactTransDeps_def dest: propagateLoop_distinct)
  with v show ?thesis by simp
qed


subsection \<open>The start state is not validated\<close>

text \<open>
  C1. A returned solution has at most one unit version per name and violates none of
  the accumulated constraints. The start state is returned without the check that
  \<^verbatim>\<open>_stateNeighbors\<close> applies to every neighbor: with \<open>A@1.0.0\<close> pinning
  \<open>B\<close> to \<open>1.0.0\<close> and the caller pinning it to \<open>2.0.0\<close>,
  \<^verbatim>\<open>resolve\<close> returns both versions of \<open>B\<close>.
\<close>

theorem resolve_returns_conflicting_choices:
  "resolveStart 4 semver0 ex_registry [''A'', ''B''] (Some [ex_cA, ex_cB2]) None = ret ex_conflict \<and>
   resolve 4 semver0 ex_registry [''A'', ''B''] (Some [ex_cA, ex_cB2]) None opts0 =
     ret [ex_A1, ex_B2, ex_B1] \<and>
   uv_name ex_B1 = uv_name ex_B2 \<and> ex_B1 \<noteq> ex_B2 \<and>
   ex_cB1 \<in> set (constraints ex_conflict) \<and> c_name ex_cB1 = uv_name ex_B2 \<and>
   \<not> isSatisfied semver0 ex_cB1 ex_B2 \<and>
   cl_violated semver0 (constraints ex_conflict) ex_B2 \<and>
   cl_violated semver0 (constraints ex_conflict) ex_B1"
  by code_simp

text \<open>
  C2. No two entries of a search state's choices share a name. The propagated start
  state of the same input has two entries named \<open>B\<close>.
\<close>

theorem start_state_shares_package_name:
  "resolveStart 4 semver0 ex_registry [''A'', ''B''] (Some [ex_cA, ex_cB2]) None = ret ex_conflict \<and>
   map uv_name (choices ex_conflict) = [''A'', ''B'', ''B''] \<and>
   \<not> distinct (map uv_name (choices ex_conflict))"
  by code_simp

subsection \<open>addUnitVersion\<close>

lemma uv_toString_not_proto: "uv_toString uv \<noteq> ''__proto__''"
proof
  assume "uv_toString uv = ''__proto__''"
  then have "CHR ''@'' \<in> set ''__proto__''"
    by (metis uv_toString_def in_set_conv_decomp append_Cons append_Nil)
  then show False by simp
qed

lemma js_set_toString [simp]: "js_set m (uv_toString uv) v = m(uv_toString uv \<mapsto> v)"
  by (simp add: js_set_def uv_toString_not_proto)

lemma js_get_Some [simp]: "m k = Some v \<Longrightarrow> js_get m k = Value v"
  by (simp add: js_get_def)

lemma js_get_None: "m k = None \<Longrightarrow> js_get m k = objectPrototype k"
  by (simp add: js_get_def)

lemma js_set_ordinary: "k \<noteq> ''__proto__'' \<Longrightarrow> js_set m k v = m(k \<mapsto> v)"
  by (simp add: js_set_def)

lemma case_objectPrototype:
  "k \<noteq> ''__proto__'' \<Longrightarrow>
   (case objectPrototype k of Undefined \<Rightarrow> c | Value l \<Rightarrow> a l
    | InheritedFunction n \<Rightarrow> c | ObjectPrototype \<Rightarrow> b) = c"
  by (simp add: objectPrototype_def)

text \<open>The name \<open>__proto__\<close> cannot be registered: the call throws.\<close>

lemma addUnitVersion_proto_throws:
  assumes "uv_name uv = ''__proto__''" and "latestVersion r ''__proto__'' = None"
  shows "addUnitVersion sv r uv = throwTypeError"
proof -
  have i: "initName r uv = r"
    using assms(1) by (simp add: initName_def js_set_def)
  have "js_get (latestVersion r) ''__proto__'' = ObjectPrototype"
    using assms(2) by (simp add: js_get_def objectPrototype_def)
  then have b: "bumpLatest sv r' uv = throwTypeError" if "latestVersion r' = latestVersion r" for r'
    using that assms(1) by (simp add: bumpLatest_def)
  show ?thesis
  proof (cases "internUnitVersion r uv" rule: result_cases)
    case Diverge
    then show ?thesis
      by (auto simp: internUnitVersion_def throwTypeError_def split: if_splits js_value.splits)
  next
    case (Throw e)
    then have "e = TypeError"
      by (auto simp: internUnitVersion_def throwTypeError_def split: if_splits js_value.splits)
    with Throw i show ?thesis by (simp add: addUnitVersion_def throwTypeError_def)
  next
    case (Return r')
    then have "latestVersion r' = latestVersion r"
      by (auto simp: internUnitVersion_def throwTypeError_def split: if_splits js_value.splits)
    with Return i b show ?thesis by (simp add: addUnitVersion_def)
  qed
qed

text \<open>What a call that returns has done, for any other name.\<close>

lemma addUnitVersion_ret_name:
  assumes "addUnitVersion sv r uv = ret r'" and "latestVersion r ''__proto__'' = None"
  shows "uv_name uv \<noteq> ''__proto__''"
  using assms addUnitVersion_proto_throws [of uv r sv] by (auto simp: throwTypeError_def)

lemma initName_fields:
  assumes "uv_name uv \<noteq> ''__proto__''"
  shows "unitsVersions (initName r uv) n =
           (if n = uv_name uv \<and> unitsVersions r n = None then Some [] else unitsVersions r n)"
    and "latestVersion (initName r uv) n =
           (if n = uv_name uv \<and> unitsVersions r n = None then Some (uv_version uv)
            else latestVersion r n)"
    and "unitsVersionsMap (initName r uv) = unitsVersionsMap r"
    and "constraintsMap (initName r uv) = constraintsMap r"
    and "resolver.more (initName r uv) = resolver.more r"
  using assms by (auto simp: initName_def js_has_def js_set_def)

lemma internUnitVersion_ret:
  assumes "internUnitVersion r uv = ret r'" and "uv_name uv \<noteq> ''__proto__''"
  shows "(unitsVersionsMap r (uv_toString uv) \<noteq> None \<and> r' = r) \<or>
         (unitsVersionsMap r (uv_toString uv) = None \<and>
          (\<exists>l. unitsVersions r (uv_name uv) = Some l \<and>
             r' = r\<lparr>unitsVersions := (unitsVersions r)(uv_name uv \<mapsto> l @ [uv]),
                     unitsVersionsMap := (unitsVersionsMap r)(uv_toString uv \<mapsto> uv)\<rparr>))"
proof (cases "unitsVersionsMap r (uv_toString uv)")
  case (Some a)
  then show ?thesis using assms(1) by (simp add: internUnitVersion_def js_has_def)
next
  case None
  show ?thesis
  proof (cases "unitsVersions r (uv_name uv)")
    case (Some l)
    then show ?thesis
      using assms None
      by (simp add: internUnitVersion_def js_has_def js_set_ordinary)
  next
    case n: None
    have g: "js_get (unitsVersions r) (uv_name uv) = objectPrototype (uv_name uv)"
      using n by (rule js_get_None)
    have "internUnitVersion r uv = throwTypeError"
      using None assms(2)
      by (simp add: internUnitVersion_def js_has_def g case_objectPrototype)
    with assms(1) show ?thesis by (simp add: throwTypeError_def)
  qed
qed

lemma internUnitVersion_fields:
  assumes "internUnitVersion r uv = ret r'" and "uv_name uv \<noteq> ''__proto__''"
  shows "unitsVersions r' n =
           (if n = uv_name uv \<and> unitsVersionsMap r (uv_toString uv) = None
            then Some ((case unitsVersions r n of None \<Rightarrow> [] | Some l \<Rightarrow> l) @ [uv])
            else unitsVersions r n)"
    and "unitsVersionsMap r' k =
           (if k = uv_toString uv \<and> unitsVersionsMap r k = None then Some uv
            else unitsVersionsMap r k)"
    and "latestVersion r' = latestVersion r"
    and "constraintsMap r' = constraintsMap r"
    and "resolver.more r' = resolver.more r"
  using internUnitVersion_ret [OF assms] by auto

lemma bumpLatest_ret:
  assumes "bumpLatest sv r uv = ret r'" and "uv_name uv \<noteq> ''__proto__''"
  shows "\<exists>l. latestVersion r (uv_name uv) = Some l \<and>
           r' = (if semver_lt sv l (uv_version uv)
                 then r\<lparr>latestVersion := (latestVersion r)(uv_name uv \<mapsto> uv_version uv)\<rparr>
                 else r)"
proof (cases "latestVersion r (uv_name uv)")
  case (Some l)
  then show ?thesis
    using assms by (simp add: bumpLatest_def js_set_ordinary split: if_splits)
next
  case None
  have g: "js_get (latestVersion r) (uv_name uv) = objectPrototype (uv_name uv)"
    using None by (rule js_get_None)
  have "bumpLatest sv r uv = throwTypeError"
    using assms(2) by (simp add: bumpLatest_def g case_objectPrototype)
  with assms(1) show ?thesis by (simp add: throwTypeError_def)
qed

lemma bumpLatest_fields:
  assumes "bumpLatest sv r uv = ret r'" and "uv_name uv \<noteq> ''__proto__''"
  shows "\<exists>l. latestVersion r (uv_name uv) = Some l \<and>
           latestVersion r' = (latestVersion r)(uv_name uv \<mapsto>
              (if semver_lt sv l (uv_version uv) then uv_version uv else l))"
    and "unitsVersions r' = unitsVersions r"
    and "unitsVersionsMap r' = unitsVersionsMap r"
    and "constraintsMap r' = constraintsMap r"
    and "resolver.more r' = resolver.more r"
proof -
  from bumpLatest_ret [OF assms] obtain l where
    l: "latestVersion r (uv_name uv) = Some l" and
    r': "r' = (if semver_lt sv l (uv_version uv)
                 then r\<lparr>latestVersion := (latestVersion r)(uv_name uv \<mapsto> uv_version uv)\<rparr>
                 else r)"
    by blast
  have "latestVersion r' = (latestVersion r)(uv_name uv \<mapsto>
              (if semver_lt sv l (uv_version uv) then uv_version uv else l))"
    using l r' by (auto simp: fun_upd_idem)
  with l show "\<exists>l. latestVersion r (uv_name uv) = Some l \<and>
           latestVersion r' = (latestVersion r)(uv_name uv \<mapsto>
              (if semver_lt sv l (uv_version uv) then uv_version uv else l))"
    by blast
  show "unitsVersions r' = unitsVersions r" "unitsVersionsMap r' = unitsVersionsMap r"
    "constraintsMap r' = constraintsMap r" "resolver.more r' = resolver.more r"
    using r' by (simp_all split: if_splits)
qed

lemma addUnitVersion_split:
  assumes "addUnitVersion sv r uv = ret r'"
  obtains r2 where "internUnitVersion (initName r uv) uv = ret r2" "bumpLatest sv r2 uv = ret r'"
  using assms by (auto simp: addUnitVersion_def rbind_ret_iff)

lemma addUnitVersion_unitsVersions:
  assumes "addUnitVersion sv r uv = ret r'" and "uv_name uv \<noteq> ''__proto__''"
  shows "unitsVersions r' n =
     (if n = uv_name uv
      then Some ((case unitsVersions r n of None \<Rightarrow> [] | Some l \<Rightarrow> l) @
                 (if unitsVersionsMap r (uv_toString uv) = None then [uv] else []))
      else unitsVersions r n)"
proof -
  from assms(1) obtain r2 where
    i: "internUnitVersion (initName r uv) uv = ret r2" and b: "bumpLatest sv r2 uv = ret r'"
    by (rule addUnitVersion_split)
  have ex: "\<exists>l. latestVersion r2 (uv_name uv) = Some l"
    using bumpLatest_fields(1) [OF b assms(2)] by blast
  show ?thesis
    unfolding bumpLatest_fields(2) [OF b assms(2)]
      internUnitVersion_fields(1) [OF i assms(2)] initName_fields [OF assms(2)]
    by (auto split: option.splits)
qed

lemma addUnitVersion_unitsVersionsMap:
  assumes "addUnitVersion sv r uv = ret r'" and "uv_name uv \<noteq> ''__proto__''"
  shows "unitsVersionsMap r' k =
     (if k = uv_toString uv \<and> unitsVersionsMap r k = None then Some uv
      else unitsVersionsMap r k)"
proof -
  from assms(1) obtain r2 where
    i: "internUnitVersion (initName r uv) uv = ret r2" and b: "bumpLatest sv r2 uv = ret r'"
    by (rule addUnitVersion_split)
  show ?thesis
    unfolding bumpLatest_fields(3) [OF b assms(2)]
      internUnitVersion_fields(2) [OF i assms(2)] initName_fields [OF assms(2)]
    by simp
qed

lemma addUnitVersion_latestVersion:
  assumes "addUnitVersion sv r uv = ret r'" and "uv_name uv \<noteq> ''__proto__''"
  shows "latestVersion r' n =
     (if n = uv_name uv
      then (case (if unitsVersions r n = None then Some (uv_version uv) else latestVersion r n) of
              None \<Rightarrow> None
            | Some l \<Rightarrow> if semver_lt sv l (uv_version uv) then Some (uv_version uv) else Some l)
      else latestVersion r n)"
proof -
  from assms(1) obtain r2 where
    i: "internUnitVersion (initName r uv) uv = ret r2" and b: "bumpLatest sv r2 uv = ret r'"
    by (rule addUnitVersion_split)
  from bumpLatest_fields(1) [OF b assms(2)] obtain l where
    l: "latestVersion r2 (uv_name uv) = Some l" and
    l': "latestVersion r' = (latestVersion r2)(uv_name uv \<mapsto>
              (if semver_lt sv l (uv_version uv) then uv_version uv else l))"
    by blast
  have r2: "latestVersion r2 = latestVersion (initName r uv)"
    by (rule internUnitVersion_fields(3) [OF i assms(2)])
  show ?thesis
    using l unfolding l' r2 initName_fields [OF assms(2)]
    by (auto split: if_splits)
qed

lemma addUnitVersion_constraintsMap:
  assumes "addUnitVersion sv r uv = ret r'" and "uv_name uv \<noteq> ''__proto__''"
  shows "constraintsMap r' = constraintsMap r"
proof -
  from assms(1) obtain r2 where
    i: "internUnitVersion (initName r uv) uv = ret r2" and b: "bumpLatest sv r2 uv = ret r'"
    by (rule addUnitVersion_split)
  show ?thesis
    unfolding bumpLatest_fields(4) [OF b assms(2)]
      internUnitVersion_fields(4) [OF i assms(2)] initName_fields [OF assms(2)] ..
qed

lemma addUnitVersion_unchanged:
  assumes "unitsVersions r (uv_name uv) \<noteq> None"
    and "unitsVersionsMap r (uv_toString uv) \<noteq> None"
    and "latestVersion r (uv_name uv) = Some l" and "\<not> semver_lt sv l (uv_version uv)"
  shows "addUnitVersion sv r uv = ret r"
  using assms
  by (auto simp: addUnitVersion_def bumpLatest_def internUnitVersion_def initName_def
      js_has_def js_get_def)

lemma addUnitVersion_returns:
  assumes "uv_name uv \<noteq> ''__proto__''"
    and "\<forall>n. unitsVersions r n \<noteq> None \<longrightarrow> latestVersion r n \<noteq> None"
  shows "\<exists>r'. addUnitVersion sv r uv = ret r'"
proof -
  let ?r1 = "initName r uv"
  have u1: "unitsVersions ?r1 (uv_name uv) \<noteq> None"
    using assms(1) by (simp add: initName_fields)
  have l1: "latestVersion ?r1 (uv_name uv) \<noteq> None"
    using assms by (auto simp: initName_fields)
  from u1 obtain l where "unitsVersions ?r1 (uv_name uv) = Some l" by blast
  then have "\<exists>r2. internUnitVersion ?r1 uv = ret r2"
    by (cases "js_has (unitsVersionsMap ?r1) (uv_toString uv)")
      (simp_all add: internUnitVersion_def js_get_def)
  then obtain r2 where i: "internUnitVersion ?r1 uv = ret r2" by blast
  have "latestVersion r2 (uv_name uv) \<noteq> None"
    using l1 internUnitVersion_fields(3) [OF i assms(1)] by simp
  then obtain l' where "latestVersion r2 (uv_name uv) = Some l'" by blast
  then have "\<exists>r'. bumpLatest sv r2 uv = ret r'"
    by (cases "semver_lt sv l' (uv_version uv)") (simp_all add: bumpLatest_def js_get_def)
  then obtain r' where "bumpLatest sv r2 uv = ret r'" by blast
  with i show ?thesis by (auto simp: addUnitVersion_def)
qed

lemma addAll_Nil [simp]: "addAll sv [] = ret Resolver"
  by (simp add: addAll_def)

lemma addAll_snoc:
  "addAll sv (uvs @ [uv]) = rbind (addAll sv uvs) (\<lambda>r. addUnitVersion sv r uv)"
  by (simp add: addAll_def)

lemma addAll_snoc_ret:
  "addAll sv (uvs @ [uv]) = ret r' \<longleftrightarrow>
     (\<exists>r. addAll sv uvs = ret r \<and> addUnitVersion sv r uv = ret r')"
  by (simp add: addAll_snoc rbind_ret_iff)

text \<open>
  A sequence of calls returns exactly when no unit version is named \<open>__proto__\<close>; in
  its registry a name with a list has a latest version.
\<close>

lemma addAll_ret_names:
  "addAll sv uvs = ret r \<Longrightarrow>
   latestVersion r ''__proto__'' = None \<and> (\<forall>u \<in> set uvs. uv_name u \<noteq> ''__proto__'')"
proof (induction uvs arbitrary: r rule: rev_induct)
  case Nil
  then show ?case by (auto simp: Resolver_def)
next
  case (snoc x xs)
  then obtain r0 where r0: "addAll sv xs = ret r0" and x: "addUnitVersion sv r0 x = ret r"
    by (auto simp: addAll_snoc_ret)
  have IH: "latestVersion r0 ''__proto__'' = None" "\<forall>u \<in> set xs. uv_name u \<noteq> ''__proto__''"
    using snoc.IH [OF r0] by auto
  have n: "uv_name x \<noteq> ''__proto__''"
    using x IH(1) by (rule addUnitVersion_ret_name)
  then have "latestVersion r ''__proto__'' = None"
    using IH(1) by (simp add: addUnitVersion_latestVersion [OF x n])
  with n IH(2) show ?case by simp
qed

lemma addAll_latest_dom:
  "addAll sv uvs = ret r \<Longrightarrow> unitsVersions r n \<noteq> None \<Longrightarrow> latestVersion r n \<noteq> None"
proof (induction uvs arbitrary: r n rule: rev_induct)
  case Nil
  then show ?case by (auto simp: Resolver_def)
next
  case (snoc x xs)
  then obtain r0 where r0: "addAll sv xs = ret r0" and x: "addUnitVersion sv r0 x = ret r"
    by (auto simp: addAll_snoc_ret)
  have nx: "uv_name x \<noteq> ''__proto__''"
    using addAll_ret_names [OF snoc.prems(1)] by simp
  from x obtain r2 where b: "bumpLatest sv r2 x = ret r"
    by (rule addUnitVersion_split)
  show ?case
  proof (cases "n = uv_name x")
    case True
    then show ?thesis
      using bumpLatest_fields(1) [OF b nx] by auto
  next
    case False
    with snoc.prems(2) have "unitsVersions r0 n \<noteq> None"
      by (simp add: addUnitVersion_unitsVersions [OF x nx])
    then have "latestVersion r0 n \<noteq> None" using snoc.IH [OF r0] by blast
    with False show ?thesis
      by (simp add: addUnitVersion_latestVersion [OF x nx])
  qed
qed

lemma addAll_returns:
  "\<forall>u \<in> set uvs. uv_name u \<noteq> ''__proto__'' \<Longrightarrow> \<exists>r. addAll sv uvs = ret r"
proof (induction uvs rule: rev_induct)
  case Nil
  show ?case by simp
next
  case (snoc x xs)
  then obtain r0 where r0: "addAll sv xs = ret r0" by auto
  have "\<forall>n. unitsVersions r0 n \<noteq> None \<longrightarrow> latestVersion r0 n \<noteq> None"
    using addAll_latest_dom [OF r0] by blast
  then obtain r where "addUnitVersion sv r0 x = ret r"
    using addUnitVersion_returns [of x r0 sv] snoc.prems by auto
  with r0 show ?case by (auto simp: addAll_snoc_ret)
qed

lemma registryOf_ret: "x = ret r \<Longrightarrow> registryOf x = r"
  by (simp add: registryOf_def ret_def)

lemma registered_addAll:
  assumes irrefl: "\<forall>v. \<not> semver_lt sv v v"
    and trans: "\<forall>a b c. semver_lt sv a b \<longrightarrow> semver_lt sv b c \<longrightarrow> semver_lt sv a c"
  shows "addAll sv uvs = ret r \<Longrightarrow> registered sv r uvs"
proof (induction uvs arbitrary: r rule: rev_induct)
  case Nil
  then show ?case by (auto simp: registered_def Resolver_def)
next
  case (snoc x xs)
  then obtain r0 where r0: "addAll sv xs = ret r0" and ax: "addUnitVersion sv r0 x = ret r"
    by (auto simp: addAll_snoc_ret)
  have nx: "uv_name x \<noteq> ''__proto__''"
    using addAll_ret_names [OF snoc.prems] by simp
  note uV = addUnitVersion_unitsVersions [OF ax nx]
  note uM = addUnitVersion_unitsVersionsMap [OF ax nx]
  note lV = addUnitVersion_latestVersion [OF ax nx]
  have reg0: "registered sv r0 xs" using snoc.IH [OF r0] .
  have dom: "\<And>n. unitsVersions r0 n \<noteq> None \<Longrightarrow> latestVersion r0 n \<noteq> None"
    using reg0 by (simp add: registered_def)
  have old: "unitsVersions r (uv_name u) \<noteq> None \<and>
        unitsVersionsMap r (uv_toString u) \<noteq> None \<and>
        (\<exists>l. latestVersion r (uv_name u) = Some l \<and> \<not> semver_lt sv l (uv_version u))"
    if u: "u \<in> set xs" for u
  proof -
    from reg0 u obtain l where
      1: "unitsVersions r0 (uv_name u) \<noteq> None" and
      2: "unitsVersionsMap r0 (uv_toString u) \<noteq> None" and
      3: "latestVersion r0 (uv_name u) = Some l" and 4: "\<not> semver_lt sv l (uv_version u)"
      unfolding registered_def by blast
    have "\<exists>l. latestVersion r (uv_name u) = Some l \<and> \<not> semver_lt sv l (uv_version u)"
    proof (cases "uv_name u = uv_name x")
      case False
      then show ?thesis using 3 4 by (simp add: lV)
    next
      case True
      show ?thesis
      proof (cases "semver_lt sv l (uv_version x)")
        case True
        with trans 4 have "\<not> semver_lt sv (uv_version x) (uv_version u)" by blast
        with True \<open>uv_name u = uv_name x\<close> 1 3 show ?thesis
          by (auto simp: lV)
      next
        case False
        with \<open>uv_name u = uv_name x\<close> 1 3 4 show ?thesis
          by (auto simp: lV)
      qed
    qed
    then show ?thesis using 1 2
      by (simp add: uV uM)
  qed
  have new: "unitsVersions r (uv_name x) \<noteq> None \<and>
        unitsVersionsMap r (uv_toString x) \<noteq> None \<and>
        (\<exists>l. latestVersion r (uv_name x) = Some l \<and> \<not> semver_lt sv l (uv_version x))"
  proof -
    have "\<exists>l. latestVersion r (uv_name x) = Some l \<and> \<not> semver_lt sv l (uv_version x)"
    proof (cases "unitsVersions r0 (uv_name x)")
      case None
      then show ?thesis using irrefl by (simp add: lV)
    next
      case (Some a)
      then obtain l where "latestVersion r0 (uv_name x) = Some l" using dom by fastforce
      with Some show ?thesis using irrefl
        by (cases "semver_lt sv l (uv_version x)") (simp_all add: lV)
    qed
    then show ?thesis
      by (simp add: uV uM)
  qed
  have dom': "\<forall>n. unitsVersions r n \<noteq> None \<longrightarrow> latestVersion r n \<noteq> None"
    using addAll_latest_dom [OF snoc.prems] by blast
  have src: "\<forall>n l. latestVersion r n = Some l \<longrightarrow>
               (\<exists>u \<in> set (xs @ [x]). uv_name u = n \<and> uv_version u = l)"
  proof (intro allI impI)
    fix n l
    assume a: "latestVersion r n = Some l"
    have IH: "\<And>n l. latestVersion r0 n = Some l \<Longrightarrow> \<exists>u \<in> set xs. uv_name u = n \<and> uv_version u = l"
      using reg0 by (simp add: registered_def)
    show "\<exists>u \<in> set (xs @ [x]). uv_name u = n \<and> uv_version u = l"
    proof (cases "latestVersion r0 n = Some l")
      case True
      then show ?thesis using IH by fastforce
    next
      case False
      with a have "n = uv_name x \<and> l = uv_version x"
        by (auto simp: lV split: if_splits option.splits)
      then show ?thesis by simp
    qed
  qed
  show ?case
    unfolding registered_def
    using old new dom' src by auto
qed





lemma split_at_last:
  assumes "x \<notin> set v1" and "x \<notin> set v2" and "n1 @ x # v1 = n2 @ x # v2"
  shows "n1 = n2 \<and> v1 = v2"
proof -
  have "rev v1 @ x # rev n1 = rev v2 @ x # rev n2"
    using assms(3) by (metis rev.simps(2) rev_append append_assoc append_Cons append_Nil)
  moreover have "takeWhile (\<lambda>c. c \<noteq> x) (rev v1 @ x # rev n1) = rev v1"
    using assms(1) by (subst takeWhile_append2) auto
  moreover have "takeWhile (\<lambda>c. c \<noteq> x) (rev v2 @ x # rev n2) = rev v2"
    using assms(2) by (subst takeWhile_append2) auto
  ultimately have "rev v1 = rev v2" by simp
  then have "v1 = v2" by simp
  with assms(3) show ?thesis by simp
qed

lemma uv_toString_inj:
  assumes "CHR ''@'' \<notin> set (uv_version u)" and "CHR ''@'' \<notin> set (uv_version uv)"
    and "uv_toString u = uv_toString uv"
  shows "uv_name u = uv_name uv \<and> uv_version u = uv_version uv"
  using split_at_last [OF assms(1,2), of "uv_name u" "uv_name uv"] assms(3)
  by (simp add: uv_toString_def)

lemma addUnitVersion_same_name_version:
  assumes irrefl: "\<forall>v. \<not> semver_lt sv v v"
    and trans: "\<forall>a b c. semver_lt sv a b \<longrightarrow> semver_lt sv b c \<longrightarrow> semver_lt sv a c"
    and r: "addAll sv uvs = ret r"
    and u: "u \<in> set uvs" and n: "uv_name uv = uv_name u" and v: "uv_version uv = uv_version u"
  shows "addUnitVersion sv r uv = ret r"
proof -
  have "registered sv r uvs"
    using irrefl trans r by (rule registered_addAll)
  with u obtain l where
    "unitsVersions r (uv_name u) \<noteq> None"
    "unitsVersionsMap r (uv_toString u) \<noteq> None"
    "latestVersion r (uv_name u) = Some l" "\<not> semver_lt sv l (uv_version u)"
    unfolding registered_def by blast
  moreover have "uv_toString uv = uv_toString u"
    using n v by (simp add: uv_toString_def)
  ultimately show ?thesis
    using n v by (intro addUnitVersion_unchanged) auto
qed




text \<open>
  For unit versions with other names the registry is idempotent: a call for a
  registered \<open>name@version\<close> string changes nothing, the first insertion of a string
  appends, and the latest version of a name is an added version of the name that no
  added version of the name exceeds.
\<close>

lemma addUnitVersion_idempotent_ordinary:
  assumes irrefl: "\<forall>v. \<not> semver_lt sv v v"
    and trans: "\<forall>a b c. semver_lt sv a b \<longrightarrow> semver_lt sv b c \<longrightarrow> semver_lt sv a c"
    and r: "addAll sv uvs = ret r"
  shows
    "\<forall>u \<in> set uvs. uv_toString uv = uv_toString u \<and> CHR ''@'' \<notin> set (uv_version u) \<and>
        CHR ''@'' \<notin> set (uv_version uv) \<longrightarrow> addUnitVersion sv r uv = ret r"
    and "\<forall>u \<in> set uvs. \<exists>l. latestVersion r (uv_name u) = Some l \<and>
        (\<exists>u' \<in> set uvs. uv_name u' = uv_name u \<and> uv_version u' = l) \<and>
        (\<forall>u' \<in> set uvs. uv_name u' = uv_name u \<longrightarrow> \<not> semver_lt sv l (uv_version u'))"
proof -
  show "\<forall>u \<in> set uvs. uv_toString uv = uv_toString u \<and> CHR ''@'' \<notin> set (uv_version u) \<and>
        CHR ''@'' \<notin> set (uv_version uv) \<longrightarrow> addUnitVersion sv r uv = ret r"
  proof (intro ballI impI)
    fix u
    assume u: "u \<in> set uvs"
      and a: "uv_toString uv = uv_toString u \<and> CHR ''@'' \<notin> set (uv_version u) \<and>
        CHR ''@'' \<notin> set (uv_version uv)"
    then have "uv_name uv = uv_name u \<and> uv_version uv = uv_version u"
      using uv_toString_inj [of u uv] by simp
    then show "addUnitVersion sv r uv = ret r"
      using addUnitVersion_same_name_version [OF irrefl trans r u] by blast
  qed
  have reg: "registered sv r uvs"
    using irrefl trans r by (rule registered_addAll)
  show "\<forall>u \<in> set uvs. \<exists>l. latestVersion r (uv_name u) = Some l \<and>
        (\<exists>u' \<in> set uvs. uv_name u' = uv_name u \<and> uv_version u' = l) \<and>
        (\<forall>u' \<in> set uvs. uv_name u' = uv_name u \<longrightarrow> \<not> semver_lt sv l (uv_version u'))"
  proof
    fix u
    assume u: "u \<in> set uvs"
    with reg obtain l where l: "latestVersion r (uv_name u) = Some l"
      unfolding registered_def by blast
    have "\<exists>u' \<in> set uvs. uv_name u' = uv_name u \<and> uv_version u' = l"
      using reg l unfolding registered_def by blast
    moreover have "\<forall>u' \<in> set uvs. uv_name u' = uv_name u \<longrightarrow> \<not> semver_lt sv l (uv_version u')"
      using reg l unfolding registered_def by (metis option.inject)
    ultimately show "\<exists>l. latestVersion r (uv_name u) = Some l \<and>
        (\<exists>u' \<in> set uvs. uv_name u' = uv_name u \<and> uv_version u' = l) \<and>
        (\<forall>u' \<in> set uvs. uv_name u' = uv_name u \<longrightarrow> \<not> semver_lt sv l (uv_version u'))"
      using l by blast
  qed
qed

text \<open>
  C7. The first insertion of a unit version appends it to \<open>unitsVersions[name]\<close> and
  \<open>latestVersion[name]\<close> becomes the maximum of the versions added. For a unit version
  named \<open>__proto__\<close> the call does neither: the assignments of lines 33-34 do not
  create entries, \<^verbatim>\<open>semver.lt\<close> gets the inherited object at line 42, and
  \<^verbatim>\<open>addUnitVersion\<close> throws a \<open>TypeError\<close>, on a fresh resolver and on one that holds
  other unit versions.
\<close>

theorem addUnitVersion_proto_name_throws:
  "uv_name ex_proto = ''__proto__'' \<and>
   addUnitVersion semver0 Resolver ex_proto = throwTypeError \<and>
   addAll semver0 [ex_B1, ex_B2] = ret ex_registry_B \<and>
   addUnitVersion semver0 ex_registry_B ex_proto = throwTypeError \<and>
   addAll semver0 [ex_B1, ex_proto, ex_B2] = throwTypeError"
proof -
  have n: "uv_name ex_proto = ''__proto__''"
    by (simp add: ex_proto_def UnitVersion_def)
  have 1: "addUnitVersion semver0 Resolver ex_proto = throwTypeError"
    using n by (rule addUnitVersion_proto_throws) (simp add: Resolver_def)
  have "\<exists>r. addAll semver0 [ex_B1, ex_B2] = ret r"
    by (rule addAll_returns) (simp add: ex_B1_def ex_B2_def UnitVersion_def)
  then have 2: "addAll semver0 [ex_B1, ex_B2] = ret ex_registry_B"
    by (auto simp: ex_registry_B_def registryOf_ret)
  have 3: "addUnitVersion semver0 ex_registry_B ex_proto = throwTypeError"
    using n addAll_ret_names [OF 2] by (intro addUnitVersion_proto_throws) auto
  have "\<exists>r. addAll semver0 [ex_B1] = ret r"
    by (rule addAll_returns) (simp add: ex_B1_def UnitVersion_def)
  then obtain r1 where r1: "addAll semver0 [ex_B1] = ret r1" by blast
  have "addUnitVersion semver0 r1 ex_proto = throwTypeError"
    using n addAll_ret_names [OF r1] by (intro addUnitVersion_proto_throws) auto
  then have "addAll semver0 [ex_B1, ex_proto] = throwTypeError"
    using r1 addAll_snoc [of semver0 "[ex_B1]" ex_proto] by simp
  then have 4: "addAll semver0 [ex_B1, ex_proto, ex_B2] = throwTypeError"
    using addAll_snoc [of semver0 "[ex_B1, ex_proto]" ex_B2] by (simp add: throwTypeError_def)
  show ?thesis using n 1 2 3 4 by blast
qed



end
